theory Spec2Isabelle
  imports Complex_Main "HOL-Library.Char_ord" "HOL-Library.List_Lexorder" "HOL-Library.Multiset"
begin

section \<open>Library functions of the Go runtime, as far as the scrapers use them\<close>

text \<open>
  Go strings are byte sequences; a \<^typ>\<open>string\<close> is a list of bytes, and a character
  outside ASCII is written as its UTF-8 bytes. The comparison \<open><\<close> of Go strings is the
  lexicographic order of the bytes, which is the order of \<^typ>\<open>char list\<close> here.

  \<open>float64\<close> prices are modelled by exact rationals: comparisons, maxima and the
  arithmetic of \<open>convertPrice\<close> are exact, so rounding error, infinities and NaN of the
  IEEE format are outside the model.
\<close>

definition isSpace :: "char \<Rightarrow> bool" where
  "isSpace c = (c \<in> set [CHR 0x09, CHR 0x0A, CHR 0x0B, CHR 0x0C, CHR 0x0D, CHR '' ''])"

text \<open>\<open>strings.TrimSpace\<close>, on the ASCII white space.\<close>

definition TrimSpace :: "string \<Rightarrow> string" where
  "TrimSpace s = rev (dropWhile isSpace (rev (dropWhile isSpace s)))"

definition HasPrefix :: "string \<Rightarrow> string \<Rightarrow> bool" where
  "HasPrefix s p = (take (length p) s = p)"

fun Contains :: "string \<Rightarrow> string \<Rightarrow> bool" where
  "Contains [] sub = (sub = [])"
| "Contains (c # cs) sub = (HasPrefix (c # cs) sub \<or> Contains cs sub)"

text \<open>The ASCII capital letters beside their small letters.\<close>

definition lowerTable :: "(char \<times> char) list" where
  "lowerTable = zip ''ABCDEFGHIJKLMNOPQRSTUVWXYZ'' ''abcdefghijklmnopqrstuvwxyz''"

definition toLower :: "char \<Rightarrow> char" where
  "toLower c = (case map_of lowerTable c of Some l \<Rightarrow> l | None \<Rightarrow> c)"

text \<open>
  \<open>strings.EqualFold\<close> against the ASCII words \<open>home\<close> and \<open>inicio\<close>: none of their
  letters has a fold partner outside ASCII, so the comparison is the ASCII one.
\<close>

definition EqualFold :: "string \<Rightarrow> string \<Rightarrow> bool" where
  "EqualFold s t = (map toLower s = map toLower t)"

definition ReplaceAll :: "string \<Rightarrow> char \<Rightarrow> string" where
  "ReplaceAll s c = filter (\<lambda>x. x \<noteq> c) s"

definition isDigit :: "char \<Rightarrow> bool" where
  "isDigit c = (c \<in> set ''0123456789'')"

definition digitVal :: "char \<Rightarrow> nat" where
  "digitVal c = (case map_of (zip ''0123456789'' [0, 1, 2, 3, 4, 5, 6, 7, 8, 9]) c of
                   Some d \<Rightarrow> d | None \<Rightarrow> 0)"

definition digitsVal :: "string \<Rightarrow> nat" where
  "digitsVal ds = foldl (\<lambda>a c. 10 * a + digitVal c) 0 ds"

text \<open>An optional sign in front of a number: the sign and the rest.\<close>

fun splitSign :: "string \<Rightarrow> int \<times> string" where
  "splitSign [] = (1, [])"
| "splitSign (c # cs) =
     (if c = CHR ''+'' then (1, cs) else if c = CHR ''-'' then (-1, cs) else (1, c # cs))"

text \<open>
  \<open>strconv.Atoi\<close>: an optional sign and at least one decimal digit, nothing else; a
  value outside the 64-bit \<open>int\<close> is a range error. \<open>None\<close> is the error.
\<close>

definition Atoi :: "string \<Rightarrow> int option" where
  "Atoi s =
     (let (sg, ds) = splitSign s; v = sg * int (digitsVal ds)
      in if ds = [] \<or> \<not> list_all isDigit ds then None
         else if v < - (2 ^ 63) \<or> 2 ^ 63 - 1 < v then None
         else Some v)"

text \<open>
  The plain decimal numbers \<open>strconv.ParseFloat\<close> reads: an optional sign, digits with
  at most one point, at least one digit.
\<close>

definition parseDecimal :: "string \<Rightarrow> rat option" where
  "parseDecimal s =
     (let (sg, r) = splitSign s;
          ip = takeWhile isDigit r; r1 = dropWhile isDigit r;
          (fp, r2) = (case r1 of
                        [] \<Rightarrow> ([], [])
                      | c # r' \<Rightarrow> if c = CHR ''.'' then (takeWhile isDigit r', dropWhile isDigit r')
                                  else ([], r1))
      in if r2 \<noteq> [] \<or> (ip = [] \<and> fp = []) then None
         else Some (of_int sg * of_nat (digitsVal (ip @ fp)) / 10 ^ length fp))"

text \<open>
  \<open>strconv.ParseFloat\<close> with its error dropped, as every caller does (\<open>v, _ :=\<close>). On a
  plain decimal the value is the number; \<open>ext\<close> is what the library returns on any other
  string (0 on a syntax error; exponents, hexadecimal and the special values are the
  library's own).
\<close>

definition ParseFloat :: "(string \<Rightarrow> rat) \<Rightarrow> string \<Rightarrow> rat" where
  "ParseFloat ext s = (case parseDecimal s of Some v \<Rightarrow> v | None \<Rightarrow> ext s)"

text \<open>\<open>math.Round\<close>: to the nearest integer, halves away from zero.\<close>

definition Round :: "rat \<Rightarrow> rat" where
  "Round x = (if 0 \<le> x then of_int \<lfloor>x + 1 / 2\<rfloor> else - of_int \<lfloor>- x + 1 / 2\<rfloor>)"

text \<open>\<open>math.Pow(10, float64(k))\<close> for an integer \<open>k\<close>.\<close>

definition Pow10 :: "int \<Rightarrow> rat" where
  "Pow10 k = (if 0 \<le> k then 10 ^ nat k else 1 / 10 ^ nat (- k))"

section \<open>The output schema and the listing entry\<close>

record Product =
  Nombre :: string
  Precio :: rat
  PrecioOriginal :: rat
  EnOferta :: bool
  Stock :: string
  Imagen :: string
  Imagen64 :: string
  Link :: string
  Categoria :: string
  Subcategorias :: "string list"

record productEntry =
  url :: string
  imagen64 :: string
  category :: string

text \<open>The zero value \<open>Product{}\<close>.\<close>

definition Product0 :: Product where
  "Product0 = \<lparr>Nombre = [], Precio = 0, PrecioOriginal = 0, EnOferta = False, Stock = [],
     Imagen = [], Imagen64 = [], Link = [], Categoria = [], Subcategorias = []\<rparr>"

definition baseURL :: string where
  "baseURL = ''https://www.my-shop.mx''"

definition shopURL :: string where
  "shopURL = baseURL @ ''/shop''"

definition maxRetries :: nat where
  "maxRetries = 3"

definition absURL :: "string \<Rightarrow> string" where
  "absURL rel = (if rel = [] \<or> HasPrefix rel ''http'' then rel else baseURL @ rel)"

section \<open>Fetching with retries\<close>

text \<open>
  What one attempt of a request meets: \<open>http.NewRequest\<close> fails, the transport fails, or
  a response arrives with a status and, for status 200, the parsed body (\<open>None\<close> when the
  body cannot be read or parsed).
\<close>

datatype 'd response = RequestErr | NetErr | Http nat "'d option"

datatype error = NewRequestFailed | RetriesExhausted | RequestFailed | NoCategories | WriteFailed

text \<open>
  The loop \<open>for attempt := range maxRetries\<close> of \<open>fetchDoc\<close>, \<open>fetchHTML\<close> and
  \<open>fetchPage\<close>: \<open>net a\<close> is what attempt \<open>a\<close> meets. The sleeps between attempts do not
  change the result.
\<close>

fun attempts :: "nat \<Rightarrow> nat \<Rightarrow> (nat \<Rightarrow> 'd response) \<Rightarrow> error + 'd" where
  "attempts 0 a net = Inl RetriesExhausted"
| "attempts (Suc n) a net =
     (case net a of
        RequestErr \<Rightarrow> Inl NewRequestFailed
      | NetErr \<Rightarrow> attempts n (Suc a) net
      | Http st body \<Rightarrow>
          if st = 429 then attempts n (Suc a) net
          else if st \<noteq> 200 then attempts n (Suc a) net
          else (case body of None \<Rightarrow> attempts n (Suc a) net | Some d \<Rightarrow> Inr d))"

definition fetchDoc :: "(nat \<Rightarrow> 'd response) \<Rightarrow> error + 'd" where
  "fetchDoc net = attempts maxRetries 0 net"

text \<open>
  \<open>fetchHTML\<close> reads the body before it looks at the status, so an unreadable body is
  retried whatever the status is.
\<close>

fun attemptsHTML :: "nat \<Rightarrow> nat \<Rightarrow> (nat \<Rightarrow> 'd response) \<Rightarrow> error + 'd" where
  "attemptsHTML 0 a net = Inl RetriesExhausted"
| "attemptsHTML (Suc n) a net =
     (case net a of
        RequestErr \<Rightarrow> Inl NewRequestFailed
      | NetErr \<Rightarrow> attemptsHTML n (Suc a) net
      | Http st body \<Rightarrow>
          (case body of
             None \<Rightarrow> attemptsHTML n (Suc a) net
           | Some d \<Rightarrow>
               if st = 429 then attemptsHTML n (Suc a) net
               else if st \<noteq> 200 then attemptsHTML n (Suc a) net
               else Inr d))"

definition fetchHTML :: "(nat \<Rightarrow> 'd response) \<Rightarrow> error + 'd" where
  "fetchHTML net = attemptsHTML maxRetries 0 net"

section \<open>The normalizer shared by the two HTML scrapers: categories\<close>

text \<open>
  Both \<open>scrapeProduct\<close> functions end with the same block. \<open>subcats0\<close> is the list of
  breadcrumb labels kept by the filter; the last one is the product's own name.
\<close>

definition keepLabel :: "string \<Rightarrow> bool" where
  "keepLabel t = (t \<noteq> [] \<and> \<not> EqualFold t ''home'' \<and> \<not> EqualFold t ''inicio'')"

definition resolveCategory :: "string \<Rightarrow> string list \<Rightarrow> string \<times> string list" where
  "resolveCategory cat subcats0 =
     (let subcats = (if length subcats0 > 0 then take (length subcats0 - 1) subcats0 else subcats0)
      in if cat \<noteq> [] then (cat, if length subcats = 0 then [cat] else subcats)
         else if length subcats > 0 then (subcats ! (length subcats - 1), subcats)
         else (''General'', [''General'']))"

section \<open>The HTML scraper on document queries (catalogo-myshop/scraper/main.go)\<close>

text \<open>
  What the queries of \<open>scrapeProduct\<close> return on a detail page: the text of the first
  \<open>h1\<close>, the \<open>content\<close> attribute of the first \<open>itemprop=price\<close> element (\<open>None\<close> when
  there is no such attribute), the texts of the price elements, of the \<open>span\<close>, \<open>div\<close>
  and \<open>p\<close> elements, of the first struck-through element, of the availability
  elements, of the body, the \<open>src\<close> of the first product image (empty when there is
  none) and the texts of the breadcrumb items; on the shop page, the \<open>href\<close> and the
  text of every anchor whose \<open>href\<close> starts with \<open>/shop/category/\<close>.
\<close>

record doc =
  sel_h1 :: string
  sel_price :: "string option"
  sel_priceTexts :: "string list"
  sel_blocks :: "string list"
  sel_del :: string
  sel_stock :: "string list"
  sel_body :: string
  sel_img :: string
  sel_breadcrumb :: "string list"
  sel_categories :: "(string \<times> string) list"

definition isNumChar :: "char \<Rightarrow> bool" where
  "isNumChar c = (isDigit c \<or> c = CHR '','')"

text \<open>\<open>reFirstNum.FindString\<close>: the leftmost match of \<open>\d[\d,]*\.?\d*\<close>, empty when none.\<close>

definition FirstNum :: "string \<Rightarrow> string" where
  "FirstNum s =
     (let r = dropWhile (\<lambda>c. \<not> isDigit c) s;
          ip = takeWhile isNumChar r; r1 = dropWhile isNumChar r
      in case r1 of
           [] \<Rightarrow> ip
         | c # r' \<Rightarrow> if c = CHR ''.'' then ip @ [c] @ takeWhile isDigit r' else ip)"

definition parsePrice :: "(string \<Rightarrow> rat) \<Rightarrow> string \<Rightarrow> rat" where
  "parsePrice ext s =
     (let m = FirstNum (ReplaceAll s (CHR '',''))
      in if m = [] then 0 else ParseFloat ext m)"

definition visiblePrice :: "doc \<Rightarrow> string" where
  "visiblePrice d =
     (let priceText = foldl (\<lambda>acc t. if acc = [] then TrimSpace t else acc) [] (sel_priceTexts d)
      in if priceText = []
         then foldl (\<lambda>acc t0. let t = TrimSpace t0
                       in if acc = [] \<and> Contains t ''$'' \<and> Contains t ''MXN'' \<and> length t < 60
                          then t else acc) [] (sel_blocks d)
         else priceText)"

definition scrapePrecio :: "(string \<Rightarrow> rat) \<Rightarrow> doc \<Rightarrow> rat" where
  "scrapePrecio ext d =
     (case sel_price d of
        Some priceStr \<Rightarrow> if priceStr \<noteq> [] then ParseFloat ext priceStr
                         else parsePrice ext (visiblePrice d)
      | None \<Rightarrow> parsePrice ext (visiblePrice d))"

text \<open>The original price and the sale flag, from the struck-through text.\<close>

definition scrapeOriginal :: "(string \<Rightarrow> rat) \<Rightarrow> doc \<Rightarrow> rat \<Rightarrow> rat \<times> bool" where
  "scrapeOriginal ext d precio =
     (let delText = TrimSpace (sel_del d)
      in if delText \<noteq> [] then (parsePrice ext delText, parsePrice ext delText > precio)
         else (precio, False))"

definition noExiste :: string where
  "noExiste = ''Esta combinaci'' @ [CHR 0xC3, CHR 0xB3] @ ''n no existe''"

definition anadirAlCarrito :: string where
  "anadirAlCarrito = ''A'' @ [CHR 0xC3, CHR 0xB1] @ ''adir al carrito''"

definition scrapeStock :: "doc \<Rightarrow> string" where
  "scrapeStock d =
     (let stockText = foldl (\<lambda>acc s. if acc = []
                                      then (let t = TrimSpace s in if t \<noteq> [] then t else acc)
                                      else acc) [] (sel_stock d)
      in if stockText = []
         then (if Contains (sel_body d) noExiste then ''Agotado''
               else if Contains (sel_body d) anadirAlCarrito
                       \<or> Contains (sel_body d) ''Agregar al carrito'' then ''Disponible''
               else ''Desconocido'')
         else stockText)"

definition scrapeProduct ::
  "(string \<Rightarrow> rat) \<Rightarrow> (string \<Rightarrow> nat \<Rightarrow> doc response) \<Rightarrow> productEntry \<Rightarrow> error + Product" where
  "scrapeProduct ext client entry =
     (case fetchDoc (client (url entry)) of
        Inl err \<Rightarrow> Inl err
      | Inr d \<Rightarrow>
          (let precio = scrapePrecio ext d;
               (original, oferta) = scrapeOriginal ext d precio;
               imagen = (if sel_img d \<noteq> [] then absURL (sel_img d) else imagen64 entry);
               img64 = (if imagen64 entry = [] then imagen else imagen64 entry);
               (cat, subcats) = resolveCategory (category entry)
                                  (filter keepLabel (map TrimSpace (sel_breadcrumb d)))
           in Inr \<lparr>Nombre = TrimSpace (sel_h1 d), Precio = precio, PrecioOriginal = original,
                    EnOferta = oferta, Stock = scrapeStock d, Imagen = imagen, Imagen64 = img64,
                    Link = url entry, Categoria = cat, Subcategorias = subcats\<rparr>))"

section \<open>The HTML scraper on regular expressions (the second my-shop scraper)\<close>

text \<open>
  What the regular expressions of this \<open>scrapeProduct\<close> find in the body: the first
  group of the first match (\<open>None\<close> when there is no match), whether the two stock
  patterns match, and the first group of every breadcrumb match.
\<close>

record page =
  re_ItempName :: "string option"
  re_H1 :: "string option"
  re_HiddenPrice :: "string option"
  re_Price :: "string option"
  re_ListPrice :: "string option"
  re_CombNoExist :: bool
  re_AddToCart :: bool
  re_ImgSrc :: "string option"
  re_Breadcrumb :: "string list"

text \<open>
  \<open>html.UnescapeString\<close> returns a string without \<open>&\<close> as it is; \<open>ent\<close> is the
  library's decoding of the character references of any other string.
\<close>

definition UnescapeString :: "(string \<Rightarrow> string) \<Rightarrow> string \<Rightarrow> string" where
  "UnescapeString ent s = (if CHR ''&'' \<in> set s then ent s else s)"

text \<open>Replacing every match of \<open><[^>]+>\<close> by the empty string.\<close>

function stripTags :: "string \<Rightarrow> string" where
  "stripTags [] = []"
| "stripTags (c # cs) =
     (let inner = takeWhile (\<lambda>x. x \<noteq> CHR ''>'') cs; rest = dropWhile (\<lambda>x. x \<noteq> CHR ''>'') cs
      in if c = CHR ''<'' \<and> inner \<noteq> [] \<and> rest \<noteq> [] then stripTags (tl rest)
         else c # stripTags cs)"
  by pat_completeness auto
termination
proof (relation "measure length")
  show "wf (measure length)" by simp
next
  fix c :: char and cs inner rest :: string
  assume "rest = dropWhile (\<lambda>x. x \<noteq> CHR ''>'') cs"
  then have "length (tl rest) \<le> length cs"
    using length_dropWhile_le [of "\<lambda>x. x \<noteq> CHR ''>''" cs] by simp
  then show "(tl rest, c # cs) \<in> measure length" by simp
next
  fix c :: char and cs :: string
  show "(cs, c # cs) \<in> measure length" by simp
qed

definition parsePrice_re :: "(string \<Rightarrow> rat) \<Rightarrow> string \<Rightarrow> rat" where
  "parsePrice_re ext s = ParseFloat ext (ReplaceAll s (CHR '',''))"

definition scrapeNombre_re :: "(string \<Rightarrow> string) \<Rightarrow> page \<Rightarrow> string" where
  "scrapeNombre_re ent b =
     (case re_ItempName b of
        Some m \<Rightarrow> UnescapeString ent (TrimSpace m)
      | None \<Rightarrow> (case re_H1 b of
                   Some m \<Rightarrow> UnescapeString ent (TrimSpace (stripTags m))
                 | None \<Rightarrow> []))"

definition scrapePrecio_re :: "(string \<Rightarrow> rat) \<Rightarrow> page \<Rightarrow> rat" where
  "scrapePrecio_re ext b =
     (case re_HiddenPrice b of
        Some m \<Rightarrow> parsePrice_re ext m
      | None \<Rightarrow> (case re_Price b of Some m \<Rightarrow> parsePrice_re ext m | None \<Rightarrow> 0))"

definition scrapeOriginal_re :: "(string \<Rightarrow> rat) \<Rightarrow> page \<Rightarrow> rat \<Rightarrow> rat \<times> bool" where
  "scrapeOriginal_re ext b precio =
     (case re_ListPrice b of
        Some m \<Rightarrow> (let listPrice = parsePrice_re ext m
                   in if listPrice > precio then (listPrice, True) else (precio, False))
      | None \<Rightarrow> (precio, False))"

definition scrapeStock_re :: "page \<Rightarrow> string" where
  "scrapeStock_re b =
     (if re_CombNoExist b then ''Agotado''
      else if re_AddToCart b then ''Disponible''
      else ''Desconocido'')"

definition scrapeProduct_re ::
  "(string \<Rightarrow> string) \<Rightarrow> (string \<Rightarrow> rat) \<Rightarrow> (string \<Rightarrow> nat \<Rightarrow> page response) \<Rightarrow> productEntry
     \<Rightarrow> error + Product" where
  "scrapeProduct_re ent ext client entry =
     (case fetchHTML (client (url entry)) of
        Inl err \<Rightarrow> Inl err
      | Inr b \<Rightarrow>
          (let precio = scrapePrecio_re ext b;
               (original, oferta) = scrapeOriginal_re ext b precio;
               imagen0 = (case re_ImgSrc b of Some m \<Rightarrow> absURL m | None \<Rightarrow> []);
               imagen = (if imagen0 = [] then imagen64 entry else imagen0);
               img64 = (if imagen64 entry = [] then imagen else imagen64 entry);
               (cat, subcats) = resolveCategory (category entry)
                  (filter keepLabel (map (\<lambda>m. UnescapeString ent (TrimSpace m)) (re_Breadcrumb b)))
           in Inr \<lparr>Nombre = scrapeNombre_re ent b, Precio = precio, PrecioOriginal = original,
                    EnOferta = oferta, Stock = scrapeStock_re b, Imagen = imagen, Imagen64 = img64,
                    Link = url entry, Categoria = cat, Subcategorias = subcats\<rparr>))"

section \<open>The JSON scraper of the store API (the buytiti scraper)\<close>

record APIPrices =
  Price :: string
  RegularPrice :: string
  SalePrice :: string
  CurrencyMinorUnit :: int

record APIImage =
  Src :: string
  Srcset :: string

record APICategory =
  cat_ID :: int
  cat_Name :: string
  cat_Slug :: string
  cat_Parent :: int
  cat_Count :: int

record APIStockAvail =
  Text :: string
  Class :: string

record APIProduct =
  Name :: string
  Permalink :: string
  OnSale :: bool
  Prices :: APIPrices
  Images :: "APIImage list"
  Categories :: "APICategory list"
  StockAvailability :: APIStockAvail

record task =
  slug :: string
  categoryName :: string
  page_no :: int

definition perPage :: nat where
  "perPage = 20"

text \<open>
  \<open>convertPrice\<close>: a price string in minor units to the amount, rounded to two
  decimals; the empty string and a string \<open>Atoi\<close> refuses give 0.
\<close>

definition convertPrice :: "string \<Rightarrow> int \<Rightarrow> rat" where
  "convertPrice priceStr minorUnit =
     (if priceStr = [] then 0
      else case Atoi priceStr of
             None \<Rightarrow> 0
           | Some val \<Rightarrow> Round (of_int val / Pow10 minorUnit * 100) / 100)"

text \<open>\<open>strings.Split\<close> at a separator byte, and \<open>strings.Fields\<close>.\<close>

fun splitAt :: "char \<Rightarrow> string \<Rightarrow> string \<Rightarrow> string list" where
  "splitAt sep cur [] = [rev cur]"
| "splitAt sep cur (c # cs) =
     (if c = sep then rev cur # splitAt sep [] cs else splitAt sep (c # cur) cs)"

definition Fields :: "string \<Rightarrow> string list" where
  "Fields s = filter (\<lambda>w. w \<noteq> [])
                (splitAt (CHR '' '') [] (map (\<lambda>c. if isSpace c then CHR '' '' else c) s))"

fun firstWidth :: "string list \<Rightarrow> string \<Rightarrow> string" where
  "firstWidth [] width = []"
| "firstWidth (e # es) width =
     (let parts = Fields (TrimSpace e)
      in if length parts = 2 \<and> parts ! 1 = width then parts ! 0 else firstWidth es width)"

definition extractSrcsetURL :: "string \<Rightarrow> string \<Rightarrow> string" where
  "extractSrcsetURL srcset width = firstWidth (splitAt (CHR '','') [] srcset) width"

definition parseProduct :: "string \<Rightarrow> APIProduct \<Rightarrow> Product" where
  "parseProduct catName ap =
     (let imagen = (case Images ap of [] \<Rightarrow> [] | im # _ \<Rightarrow> Src im);
          imagen64 = (case Images ap of
                        [] \<Rightarrow> []
                      | im # _ \<Rightarrow> (let i64 = extractSrcsetURL (Srcset im) ''100w''
                                    in if i64 = [] then imagen else i64));
          mu = CurrencyMinorUnit (Prices ap);
          precio = (if OnSale ap \<and> SalePrice (Prices ap) \<noteq> []
                    then convertPrice (SalePrice (Prices ap)) mu
                    else convertPrice (Price (Prices ap)) mu);
          precioOriginal = convertPrice (RegularPrice (Prices ap)) mu
      in \<lparr>Nombre = Name ap, Precio = precio, PrecioOriginal = precioOriginal,
           EnOferta = OnSale ap, Stock = Text (StockAvailability ap), Imagen = imagen,
           Imagen64 = imagen64, Link = Permalink ap, Categoria = catName,
           Subcategorias = map cat_Name (Categories ap)\<rparr>)"

text \<open>\<open>parseProducts\<close>: the loop body above on every product of the page, in order.\<close>

definition parseProducts :: "APIProduct list \<Rightarrow> string \<Rightarrow> Product list" where
  "parseProducts apiProducts catName = map (parseProduct catName) apiProducts"

section \<open>Notions used in the statements\<close>




section \<open>Sorting the products\<close>

text \<open>The \<open>less\<close> function both \<open>run\<close> functions pass to \<open>sort.Slice\<close>.\<close>

definition lessProduct :: "Product \<Rightarrow> Product \<Rightarrow> bool" where
  "lessProduct a b =
     (if Categoria a \<noteq> Categoria b then Categoria a < Categoria b else Nombre a < Nombre b)"

text \<open>
  \<open>sort.Slice\<close> is the library's pattern-defeating quicksort. On a slice of at most 12
  elements it is the insertion sort below: each element in turn moves left while it is
  less than its left neighbour. \<open>insertLeft\<close> works on the sorted prefix in reverse, so
  the head of the list is the left neighbour.
\<close>

fun insertLeft :: "('a \<Rightarrow> 'a \<Rightarrow> bool) \<Rightarrow> 'a \<Rightarrow> 'a list \<Rightarrow> 'a list" where
  "insertLeft lt x [] = [x]"
| "insertLeft lt x (y # ys) = (if lt x y then y # insertLeft lt x ys else x # y # ys)"

definition insertionSort :: "('a \<Rightarrow> 'a \<Rightarrow> bool) \<Rightarrow> 'a list \<Rightarrow> 'a list" where
  "insertionSort lt xs = rev (foldl (\<lambda>acc x. insertLeft lt x acc) [] xs)"

text \<open>
  On a longer slice the result is what the library's quicksort returns, \<open>pdq xs\<close>: the
  library promises a permutation in which no element is less than an earlier one, and
  no more (the sort is not stable).
\<close>

definition sortSlice :: "('a list \<Rightarrow> 'a list) \<Rightarrow> ('a \<Rightarrow> 'a \<Rightarrow> bool) \<Rightarrow> 'a list \<Rightarrow> 'a list" where
  "sortSlice pdq lt xs = (if length xs \<le> 12 then insertionSort lt xs else pdq xs)"

definition sortSlice_ok :: "('a \<Rightarrow> 'a \<Rightarrow> bool) \<Rightarrow> 'a list \<Rightarrow> 'a list \<Rightarrow> bool" where
  "sortSlice_ok lt xs ys \<longleftrightarrow> mset ys = mset xs \<and> sorted_wrt (\<lambda>a b. \<not> lt b a) ys"

definition pdq_ok :: "(Product list \<Rightarrow> Product list) \<Rightarrow> bool" where
  "pdq_ok pdq \<longleftrightarrow> (\<forall>xs. sortSlice_ok lessProduct xs (pdq xs))"

section \<open>The static scraper: discovery, listing, worker pool, sorted write (main.go)\<close>

text \<open>
  A Go map from names to URLs is an association list with one pair for each key;
  \<open>m[k] = v\<close> replaces the value of \<open>k\<close> or adds the pair.
\<close>

fun mapPut :: "'k \<Rightarrow> 'v \<Rightarrow> ('k \<times> 'v) list \<Rightarrow> ('k \<times> 'v) list" where
  "mapPut k v [] = [(k, v)]"
| "mapPut k v (p # ps) = (if fst p = k then (k, v) # ps else p # mapPut k v ps)"

definition fetchCategories :: "(string \<Rightarrow> nat \<Rightarrow> doc response) \<Rightarrow> error + (string \<times> string) list" where
  "fetchCategories client =
     (case fetchDoc (client shopURL) of
        Inl err \<Rightarrow> Inl err
      | Inr d \<Rightarrow>
          Inr (foldl (\<lambda>cats (href, txt).
                        let name = TrimSpace txt
                        in if name \<noteq> [] \<and> href \<noteq> [] then mapPut name (absURL href) cats else cats)
                 [] (sel_categories d)))"

text \<open>
  Phase 2 of \<open>run\<close>. \<open>collect name u\<close> is the list of entries \<open>collectFromCategory\<close>
  returns for the category, taken as given. The state of the two nested loops is the
  set \<open>seen\<close> and the slice \<open>allEntries\<close>.
\<close>

definition addEntry :: "string set \<times> productEntry list \<Rightarrow> productEntry \<Rightarrow> string set \<times> productEntry list" where
  "addEntry st e =
     (if url e \<in> fst st then st else (insert (url e) (fst st), snd st @ [e]))"

definition collectAll ::
  "(string \<Rightarrow> string \<Rightarrow> productEntry list) \<Rightarrow> (string \<times> string) list \<Rightarrow> productEntry list" where
  "collectAll collect cats =
     snd (foldl (\<lambda>st (name, u). foldl addEntry st (collect name u)) ({}, []) cats)"

text \<open>
  Phase 3: the worker pool. A worker is at the head of its loop (\<open>for entry := range
  jobs\<close>), is scraping an entry, or has left the loop. The channel \<open>jobs\<close> is filled in
  the order of \<open>allEntries\<close> and closed; the channel \<open>results\<close> has room for every
  product, and \<open>run\<close> appends what it receives to \<open>products\<close> in the order of arrival.
\<close>

datatype jstate = JRecv | JBusy productEntry | JExit

record pool =
  jobs :: "productEntry list"
  results :: "Product list"
  pworkers :: "jstate list"

definition poolInit :: "int \<Rightarrow> productEntry list \<Rightarrow> pool" where
  "poolInit numWorkers allEntries =
     \<lparr>jobs = allEntries, results = [], pworkers = replicate (nat numWorkers) JRecv\<rparr>"

text \<open>One step of worker \<open>i\<close>; \<open>None\<close> when that worker has left its loop or does not exist.\<close>

definition poolStep :: "(productEntry \<Rightarrow> error + Product) \<Rightarrow> nat \<Rightarrow> pool \<Rightarrow> pool option" where
  "poolStep scrape i s =
     (if length (pworkers s) \<le> i then None
      else case pworkers s ! i of
             JRecv \<Rightarrow>
               (case jobs s of
                  [] \<Rightarrow> Some (s\<lparr>pworkers := (pworkers s)[i := JExit]\<rparr>)
                | e # js \<Rightarrow> Some (s\<lparr>jobs := js, pworkers := (pworkers s)[i := JBusy e]\<rparr>))
           | JBusy e \<Rightarrow>
               (case scrape e of
                  Inl err \<Rightarrow> Some (s\<lparr>pworkers := (pworkers s)[i := JRecv]\<rparr>)
                | Inr p \<Rightarrow> Some (s\<lparr>results := results s @ [p],
                                    pworkers := (pworkers s)[i := JRecv]\<rparr>))
           | JExit \<Rightarrow> None)"

text \<open>A schedule is the list of the workers that move, in order.\<close>

fun poolExec :: "(productEntry \<Rightarrow> error + Product) \<Rightarrow> pool \<Rightarrow> nat list \<Rightarrow> pool option" where
  "poolExec scrape s [] = Some s"
| "poolExec scrape s (i # sched) =
     (case poolStep scrape i s of None \<Rightarrow> None | Some s' \<Rightarrow> poolExec scrape s' sched)"

text \<open>
  The products \<open>run\<close> has collected when \<open>results\<close> is closed, that is when every worker
  has left its loop; \<open>None\<close> when the schedule is not a complete run of the pool.
\<close>

definition poolRun ::
  "(productEntry \<Rightarrow> error + Product) \<Rightarrow> int \<Rightarrow> productEntry list \<Rightarrow> nat list \<Rightarrow> Product list option" where
  "poolRun scrape numWorkers allEntries sched =
     (case poolExec scrape (poolInit numWorkers allEntries) sched of
        None \<Rightarrow> None
      | Some s \<Rightarrow> if list_all (\<lambda>w. w = JExit) (pworkers s) then Some (results s) else None)"

text \<open>
  What a run has done when it returns: the workers it launched, the jobs it issued, the
  product lists it wrote, and its error.
\<close>

record report =
  launched :: nat
  issued :: "productEntry list"
  written :: "Product list list"
  failure :: "error option"

text \<open>
  \<open>run\<close>. \<open>rangeOrder\<close> is the order in which \<open>range cats\<close> visits the map, \<open>wr\<close> whether
  \<open>os.WriteFile\<close> succeeds, \<open>sched\<close> the schedule of the pool.
\<close>

definition run ::
  "(string \<Rightarrow> rat) \<Rightarrow> (string \<Rightarrow> nat \<Rightarrow> doc response) \<Rightarrow> (string \<Rightarrow> string \<Rightarrow> productEntry list)
     \<Rightarrow> ((string \<times> string) list \<Rightarrow> (string \<times> string) list) \<Rightarrow> (Product list \<Rightarrow> Product list) \<Rightarrow> bool
     \<Rightarrow> int \<Rightarrow> nat list \<Rightarrow> report option" where
  "run ext client collect rangeOrder pdq wr numWorkers sched =
     (case fetchCategories client of
        Inl e \<Rightarrow> Some \<lparr>launched = 0, issued = [], written = [], failure = Some e\<rparr>
      | Inr cats \<Rightarrow>
          (let allEntries = collectAll collect (rangeOrder cats)
           in case poolRun (scrapeProduct ext client) numWorkers allEntries sched of
                None \<Rightarrow> None
              | Some products \<Rightarrow>
                  (let sorted = sortSlice pdq lessProduct products
                   in Some \<lparr>launched = nat numWorkers, issued = allEntries,
                            written = (if wr then [sorted] else []),
                            failure = (if wr then None else Some WriteFailed)\<rparr>)))"

section \<open>The dynamic scraper: discovery, scheduler, sink (the buytiti scraper)\<close>

definition ignoreSlugs :: "string set" where
  "ignoreSlugs = {''uncategorized''}"

text \<open>
  \<open>fetchCategories\<close> of the JSON scraper: one request for each page of the category
  API, without retries, until a page is empty; \<open>api n\<close> is what the request for page
  \<open>n\<close> meets. The loop has no bound of its own, so the function is partial: it has no
  value when the API never returns an empty page.
\<close>

definition addCategory :: "(string \<times> string) list \<Rightarrow> APICategory \<Rightarrow> (string \<times> string) list" where
  "addCategory categories c =
     (if cat_Parent c = 0 \<and> cat_Count c > 0 \<and> cat_Slug c \<notin> ignoreSlugs
      then mapPut (cat_Name c) (cat_Slug c) categories else categories)"

partial_function (option) categoriesFrom ::
  "(nat \<Rightarrow> APICategory list response) \<Rightarrow> nat \<Rightarrow> (string \<times> string) list
     \<Rightarrow> (error + (string \<times> string) list) option" where
  "categoriesFrom api pg categories =
     (case api pg of
        RequestErr \<Rightarrow> Some (Inl NewRequestFailed)
      | NetErr \<Rightarrow> Some (Inl RequestFailed)
      | Http st body \<Rightarrow>
          (case body of
             None \<Rightarrow> Some (Inl RequestFailed)
           | Some cats \<Rightarrow>
               if st \<noteq> 200 then Some (Inl RequestFailed)
               else if length cats = 0 then Some (Inr categories)
               else categoriesFrom api (pg + 1) (foldl addCategory categories cats)))"

definition fetchCategories_api ::
  "(nat \<Rightarrow> APICategory list response) \<Rightarrow> (error + (string \<times> string) list) option" where
  "fetchCategories_api api = categoriesFrom api 1 []"

definition fetchPage :: "(task \<Rightarrow> nat \<Rightarrow> APIProduct list response) \<Rightarrow> task \<Rightarrow> error + APIProduct list" where
  "fetchPage api t = attempts maxRetries 0 (api t)"

definition nextTask :: "task \<Rightarrow> task" where
  "nextTask t = \<lparr>slug = slug t, categoryName = categoryName t, page_no = page_no t + 1\<rparr>"

text \<open>Both channels of \<open>run\<close> are made with room for 100 values; a send waits while a
  channel is full.\<close>

definition chanCap :: nat where
  "chanCap = 100"

text \<open>
  Where a worker stands in its loop: waiting to receive a task; about to fetch the page
  of its task; about to decrement \<open>pending\<close> after a failed fetch or after an empty
  page; about to send its products to \<open>results\<close>; about to increment \<open>pending\<close> for the
  next page; about to send the task of the next page; about to decrement \<open>pending\<close> for
  its own task; out of the loop; stopped by the panic of a send on a closed channel.
\<close>

datatype wstate =
    WRecv
  | WFetch task
  | WDecErr task
  | WDecEmpty task
  | WResults task "Product list"
  | WInc task
  | WSend task
  | WDec task
  | WExit
  | WPanic task

text \<open>
  Where \<open>run\<close> itself stands: about to increment \<open>pending\<close> for the next category to
  seed; about to send that category's first task; in the loop that collects the
  batches (the monitor and the goroutine that waits for the workers are started just
  before); returned after the final write; returned with the error of the final write.
\<close>

datatype mstate =
    MSeedInc "(string \<times> string) list"
  | MSeedSend task "(string \<times> string) list"
  | MCollect
  | MDone
  | MFailed

text \<open>
  The two lines a worker logs when a task ends the pagination of its category: the
  line of an empty page and the line of a failed fetch, each with its task.
\<close>

datatype logline = LogDone task | LogError task

text \<open>
  The shared state of a run. \<open>pending\<close> is an \<open>atomic.Int32\<close>; it is an integer here,
  since it stays between 0 and the capacity of the channel plus two for each worker
  plus one (lemma \<open>pending_bound\<close> below), far from the 32-bit range. The channels are
  the lists of the values sent and not yet received.
\<close>

record sched =
  pending :: int
  tasksCh :: "task list"
  tasksClosed :: bool
  resultsCh :: "Product list list"
  workers :: "wstate list"
  mainpc :: mstate
  allProducts :: "Product list"
  logged :: "logline list"
  nwrites :: nat
  persisted :: "Product list list"

text \<open>
  The start of \<open>run\<close>: the output file is reset, the workers are launched, and the
  seeding loop is about to begin. \<open>wr k\<close> tells whether the write number \<open>k\<close> of the run
  succeeds; \<open>persisted\<close> lists the product lists written so far.
\<close>

definition runInit ::
  "((string \<times> string) list \<Rightarrow> (string \<times> string) list) \<Rightarrow> (nat \<Rightarrow> bool) \<Rightarrow> (string \<times> string) list
     \<Rightarrow> int \<Rightarrow> error + sched" where
  "runInit rangeOrder wr cats numWorkers =
     (if \<not> wr 0 then Inl WriteFailed
      else Inr \<lparr>pending = 0, tasksCh = [], tasksClosed = False, resultsCh = [],
                workers = replicate (nat numWorkers) WRecv, mainpc = MSeedInc (rangeOrder cats),
                allProducts = [], logged = [], nwrites = 1, persisted = [[]]\<rparr>)"

text \<open>One step of worker \<open>i\<close>; \<open>None\<close> when the worker cannot move.\<close>

definition setWorker :: "nat \<Rightarrow> wstate \<Rightarrow> sched \<Rightarrow> sched" where
  "setWorker i w s = s\<lparr>workers := (workers s)[i := w]\<rparr>"

definition workerStep ::
  "(task \<Rightarrow> nat \<Rightarrow> APIProduct list response) \<Rightarrow> nat \<Rightarrow> sched \<Rightarrow> sched option" where
  "workerStep api i s =
     (if length (workers s) \<le> i then None
      else case workers s ! i of
             WRecv \<Rightarrow>
               (case tasksCh s of
                  [] \<Rightarrow> if tasksClosed s then Some (setWorker i WExit s) else None
                | t # q \<Rightarrow> Some (setWorker i (WFetch t) (s\<lparr>tasksCh := q\<rparr>)))
           | WFetch t \<Rightarrow>
               (case fetchPage api t of
                  Inl e \<Rightarrow> Some (setWorker i (WDecErr t) (s\<lparr>logged := logged s @ [LogError t]\<rparr>))
                | Inr apiProducts \<Rightarrow>
                    if length apiProducts = 0
                    then Some (setWorker i (WDecEmpty t) (s\<lparr>logged := logged s @ [LogDone t]\<rparr>))
                    else Some (setWorker i (WResults t (parseProducts apiProducts (categoryName t))) s))
           | WDecErr t \<Rightarrow> Some (setWorker i WRecv (s\<lparr>pending := pending s - 1\<rparr>))
           | WDecEmpty t \<Rightarrow> Some (setWorker i WRecv (s\<lparr>pending := pending s - 1\<rparr>))
           | WResults t products \<Rightarrow>
               if length (resultsCh s) < chanCap
               then Some (setWorker i (WInc t) (s\<lparr>resultsCh := resultsCh s @ [products]\<rparr>))
               else None
           | WInc t \<Rightarrow> Some (setWorker i (WSend t) (s\<lparr>pending := pending s + 1\<rparr>))
           | WSend t \<Rightarrow>
               if tasksClosed s then Some (setWorker i (WPanic t) s)
               else if length (tasksCh s) < chanCap
               then Some (setWorker i (WDec t) (s\<lparr>tasksCh := tasksCh s @ [nextTask t]\<rparr>))
               else None
           | WDec t \<Rightarrow> Some (setWorker i WRecv (s\<lparr>pending := pending s - 1\<rparr>))
           | WExit \<Rightarrow> None
           | WPanic t \<Rightarrow> None)"

text \<open>
  One step of \<open>run\<close> itself. The channel \<open>results\<close> is closed once every worker has
  left its loop; then the collecting loop ends, the products are sorted and written.
\<close>

definition mainStep :: "(Product list \<Rightarrow> Product list) \<Rightarrow> (nat \<Rightarrow> bool) \<Rightarrow> sched \<Rightarrow> sched option" where
  "mainStep pdq wr s =
     (case mainpc s of
        MSeedInc [] \<Rightarrow> Some (s\<lparr>mainpc := MCollect\<rparr>)
      | MSeedInc (c # rest) \<Rightarrow>
          Some (s\<lparr>pending := pending s + 1,
                  mainpc := MSeedSend \<lparr>slug = snd c, categoryName = fst c, page_no = 1\<rparr> rest\<rparr>)
      | MSeedSend t rest \<Rightarrow>
          if length (tasksCh s) < chanCap
          then Some (s\<lparr>tasksCh := tasksCh s @ [t], mainpc := MSeedInc rest\<rparr>)
          else None
      | MCollect \<Rightarrow>
          (case resultsCh s of
             batch # r \<Rightarrow>
               Some (s\<lparr>resultsCh := r, allProducts := allProducts s @ batch,
                       nwrites := nwrites s + 1,
                       persisted := (if wr (nwrites s) then persisted s @ [allProducts s @ batch]
                                     else persisted s)\<rparr>)
           | [] \<Rightarrow>
               if list_all (\<lambda>w. w = WExit) (workers s)
               then (let sorted = sortSlice pdq lessProduct (allProducts s)
                     in Some (s\<lparr>allProducts := sorted, nwrites := nwrites s + 1,
                                persisted := (if wr (nwrites s) then persisted s @ [sorted]
                                              else persisted s),
                                mainpc := (if wr (nwrites s) then MDone else MFailed)\<rparr>))
               else None)
      | MDone \<Rightarrow> None
      | MFailed \<Rightarrow> None)"

text \<open>
  One poll of the monitor, which runs once the seeding loop has ended and until it has
  closed the channel of tasks.
\<close>

definition monitorStep :: "sched \<Rightarrow> sched option" where
  "monitorStep s =
     (case mainpc s of
        MSeedInc rest \<Rightarrow> None
      | MSeedSend t rest \<Rightarrow> None
      | _ \<Rightarrow> if tasksClosed s then None
             else if pending s \<le> 0 then Some (s\<lparr>tasksClosed := True\<rparr>)
             else Some s)"

datatype action = AMain | AMonitor | AWorker nat

text \<open>A panic ends the process: nothing moves once a worker has panicked.\<close>

definition panicked :: "wstate \<Rightarrow> bool" where
  "panicked w = (case w of WPanic t \<Rightarrow> True | _ \<Rightarrow> False)"

definition step ::
  "(task \<Rightarrow> nat \<Rightarrow> APIProduct list response) \<Rightarrow> (Product list \<Rightarrow> Product list) \<Rightarrow> (nat \<Rightarrow> bool)
     \<Rightarrow> action \<Rightarrow> sched \<Rightarrow> sched option" where
  "step api pdq wr a s =
     (if list_ex panicked (workers s) then None
      else case a of
             AMain \<Rightarrow> mainStep pdq wr s
           | AMonitor \<Rightarrow> monitorStep s
           | AWorker i \<Rightarrow> workerStep api i s)"

fun exec ::
  "(task \<Rightarrow> nat \<Rightarrow> APIProduct list response) \<Rightarrow> (Product list \<Rightarrow> Product list) \<Rightarrow> (nat \<Rightarrow> bool)
     \<Rightarrow> sched \<Rightarrow> action list \<Rightarrow> sched option" where
  "exec api pdq wr s [] = Some s"
| "exec api pdq wr s (a # as) =
     (case step api pdq wr a s of None \<Rightarrow> None | Some s' \<Rightarrow> exec api pdq wr s' as)"

text \<open>
  \<open>main\<close> up to the start of \<open>run\<close>: discovery, then the two fatal checks. The result is
  the fatal error, or the scheduler as \<open>run\<close> starts it.
\<close>

definition main_api ::
  "(nat \<Rightarrow> APICategory list response) \<Rightarrow> ((string \<times> string) list \<Rightarrow> (string \<times> string) list)
     \<Rightarrow> (nat \<Rightarrow> bool) \<Rightarrow> int \<Rightarrow> (error + sched) option" where
  "main_api catApi rangeOrder wr numWorkers =
     (case fetchCategories_api catApi of
        None \<Rightarrow> None
      | Some (Inl e) \<Rightarrow> Some (Inl e)
      | Some (Inr categories) \<Rightarrow>
          if length categories = 0 then Some (Inl NoCategories)
          else Some (runInit rangeOrder wr categories numWorkers))"

text \<open>The states a run of the scheduler over the categories \<open>cats\<close> can reach.\<close>

definition reachable ::
  "(task \<Rightarrow> nat \<Rightarrow> APIProduct list response) \<Rightarrow> (Product list \<Rightarrow> Product list) \<Rightarrow> (nat \<Rightarrow> bool)
     \<Rightarrow> ((string \<times> string) list \<Rightarrow> (string \<times> string) list) \<Rightarrow> (string \<times> string) list \<Rightarrow> int
     \<Rightarrow> sched \<Rightarrow> bool" where
  "reachable api pdq wr rangeOrder cats numWorkers s \<longleftrightarrow>
     (\<exists>s0 acts. runInit rangeOrder wr cats numWorkers = Inr s0 \<and> exec api pdq wr s0 acts = Some s)"

section \<open>Further notions used in the statements\<close>

text \<open>Not after, in the order of the sort.\<close>

definition leProduct :: "Product \<Rightarrow> Product \<Rightarrow> bool" where
  "leProduct a b \<longleftrightarrow> \<not> lessProduct b a"

text \<open>The key of the sort: category, then name.\<close>

definition sortKey :: "Product \<Rightarrow> string \<times> string" where
  "sortKey p = (Categoria p, Nombre p)"

text \<open>The products of the entries whose detail page can be fetched, in the order of the entries.\<close>

definition good :: "(productEntry \<Rightarrow> error + Product) \<Rightarrow> productEntry \<Rightarrow> Product list" where
  "good scrape e = (case scrape e of Inl err \<Rightarrow> [] | Inr p \<Rightarrow> [p])"

definition successes :: "(productEntry \<Rightarrow> error + Product) \<Rightarrow> productEntry list \<Rightarrow> Product list" where
  "successes scrape es = concat (map (good scrape) es)"

text \<open>The products still to come from the entry a worker is scraping.\<close>

definition busyGood :: "(productEntry \<Rightarrow> error + Product) \<Rightarrow> jstate \<Rightarrow> Product multiset" where
  "busyGood scrape w = (case w of JBusy e \<Rightarrow> mset (good scrape e) | _ \<Rightarrow> {#})"

text \<open>
  Every product of an entry is collected, is still to come from a busy worker, or is
  still to come from a job in the channel; and no worker leaves while a job is there.
\<close>

definition poolInv :: "(productEntry \<Rightarrow> error + Product) \<Rightarrow> productEntry list \<Rightarrow> pool \<Rightarrow> bool" where
  "poolInv scrape allEntries s \<longleftrightarrow>
     mset (results s) + sum_list (map (busyGood scrape) (pworkers s)) + mset (successes scrape (jobs s))
       = mset (successes scrape allEntries) \<and>
     (jobs s = [] \<or> JExit \<notin> set (pworkers s))"


text \<open>An attempt that \<open>fetchDoc\<close> answers with another attempt.\<close>

definition retried :: "'d response \<Rightarrow> bool" where
  "retried r = (case r of RequestErr \<Rightarrow> False | NetErr \<Rightarrow> True
                | Http st body \<Rightarrow> st \<noteq> 200 \<or> body = None)"

text \<open>After the final write the last list written is the sorted list of all products.\<close>

definition doneInv :: "sched \<Rightarrow> bool" where
  "doneInv s \<longleftrightarrow>
     (mainpc s = MDone \<longrightarrow>
        persisted s \<noteq> [] \<and> last (persisted s) = allProducts s
        \<and> sorted_wrt leProduct (allProducts s))"

text \<open>
  What each goroutine has added to \<open>pending\<close> and not yet taken back: a worker that
  holds a task counts 1, and 2 between its increment for the next page and the send of
  that page's task; \<open>run\<close> counts 1 between its increment and the send of a seed.
\<close>

definition weight :: "wstate \<Rightarrow> int" where
  "weight w = (case w of WRecv \<Rightarrow> 0 | WFetch t \<Rightarrow> 1 | WDecErr t \<Rightarrow> 1 | WDecEmpty t \<Rightarrow> 1
               | WResults t ps \<Rightarrow> 1 | WInc t \<Rightarrow> 1 | WSend t \<Rightarrow> 2 | WDec t \<Rightarrow> 1
               | WExit \<Rightarrow> 0 | WPanic t \<Rightarrow> 2)"

definition mainWeight :: "mstate \<Rightarrow> int" where
  "mainWeight m = (case m of MSeedSend t rest \<Rightarrow> 1 | _ \<Rightarrow> 0)"

definition pendingInv :: "sched \<Rightarrow> bool" where
  "pendingInv s \<longleftrightarrow>
     pending s = int (length (tasksCh s)) + sum_list (map weight (workers s)) + mainWeight (mainpc s)"

text \<open>The seeding loop has ended.\<close>

definition seeded :: "mstate \<Rightarrow> bool" where
  "seeded m = (case m of MSeedInc rest \<Rightarrow> False | MSeedSend t rest \<Rightarrow> False | _ \<Rightarrow> True)"

definition closedInv :: "sched \<Rightarrow> bool" where
  "closedInv s \<longleftrightarrow>
     (tasksClosed s \<longrightarrow> pending s = 0 \<and> seeded (mainpc s)) \<and> \<not> list_ex panicked (workers s)"

text \<open>
  The categories whose pagination is still carried by somebody: not yet seeded, with a
  task in the channel, with a task in the hands of a worker that has not yet passed it
  on, or ended, with its line in the log.
\<close>

definition covers :: "wstate \<Rightarrow> string set" where
  "covers w = (case w of WFetch t \<Rightarrow> {categoryName t} | WResults t ps \<Rightarrow> {categoryName t}
               | WInc t \<Rightarrow> {categoryName t} | WSend t \<Rightarrow> {categoryName t}
               | WPanic t \<Rightarrow> {categoryName t} | _ \<Rightarrow> {})"

definition unseeded :: "mstate \<Rightarrow> string set" where
  "unseeded m = (case m of MSeedInc rest \<Rightarrow> fst ` set rest
                 | MSeedSend t rest \<Rightarrow> insert (categoryName t) (fst ` set rest) | _ \<Rightarrow> {})"

definition ended :: "logline \<Rightarrow> string" where
  "ended l = (case l of LogDone t \<Rightarrow> categoryName t | LogError t \<Rightarrow> categoryName t)"

definition carried :: "sched \<Rightarrow> string set" where
  "carried s = unseeded (mainpc s) \<union> categoryName ` set (tasksCh s)
               \<union> (\<Union>w\<in>set (workers s). covers w) \<union> ended ` set (logged s)"

text \<open>No worker holds a task.\<close>

definition idle :: "wstate \<Rightarrow> bool" where
  "idle w = (w = WRecv \<or> w = WExit)"

text \<open>The channel of tasks holds no more than its capacity, and the pool keeps its size.\<close>

definition capInv :: "nat \<Rightarrow> sched \<Rightarrow> bool" where
  "capInv k s \<longleftrightarrow> length (tasksCh s) \<le> chanCap \<and> length (workers s) = k"

section \<open>Example inputs\<close>

definition demoDoc :: doc where
  "demoDoc = \<lparr>sel_h1 = '' Funda X '', sel_price = Some ''30.00'', sel_priceTexts = [],
     sel_blocks = [], sel_del = [], sel_stock = [], sel_body = ''Agregar al carrito'',
     sel_img = [], sel_breadcrumb = [''Home'', ''Phones'', ''Cases'', ''My Product''],
     sel_categories = []\<rparr>"

definition demoPage :: page where
  "demoPage = \<lparr>re_ItempName = Some ''Funda X'', re_H1 = None, re_HiddenPrice = Some ''24.5'',
     re_Price = None, re_ListPrice = Some ''30.00'', re_CombNoExist = False, re_AddToCart = True,
     re_ImgSrc = None, re_Breadcrumb = [''Home'', ''Phones'', ''Cases'', ''My Product'']\<rparr>"

definition demoEntry :: "string \<Rightarrow> productEntry" where
  "demoEntry cat = \<lparr>url = ''https://www.my-shop.mx/shop/funda-x-1'', imagen64 = [], category = cat\<rparr>"

definition serve :: "'d \<Rightarrow> string \<Rightarrow> nat \<Rightarrow> 'd response" where
  "serve d u a = Http 200 (Some d)"

definition noExt :: "string \<Rightarrow> rat" where
  "noExt s = 0"

definition demoAPI :: "string \<Rightarrow> string \<Rightarrow> string \<Rightarrow> bool \<Rightarrow> APIProduct" where
  "demoAPI pr reg sale onsale =
     \<lparr>Name = ''Funda X'', Permalink = ''https://buytiti.com/producto/funda-x/'', OnSale = onsale,
      Prices = \<lparr>Price = pr, RegularPrice = reg, SalePrice = sale, CurrencyMinorUnit = 2\<rparr>,
      Images = [], Categories = [],
      StockAvailability = \<lparr>Text = ''Hay existencias'', Class = ''in-stock''\<rparr>\<rparr>"

text \<open>A shop page with the given category anchors, served at every URL.\<close>

definition shopDoc :: "(string \<times> string) list \<Rightarrow> doc" where
  "shopDoc anchors = demoDoc\<lparr>sel_categories := anchors\<rparr>"

definition noCollect :: "string \<Rightarrow> string \<Rightarrow> productEntry list" where
  "noCollect name u = []"

definition failing :: "string \<Rightarrow> nat \<Rightarrow> doc response" where
  "failing u a = Http 503 None"

definition catApiDown :: "nat \<Rightarrow> APICategory list response" where
  "catApiDown n = NetErr"

definition catApiEmpty :: "nat \<Rightarrow> APICategory list response" where
  "catApiEmpty n = Http 200 (Some [])"

definition allWrites :: "nat \<Rightarrow> bool" where
  "allWrites k = True"

text \<open>
  A shop with one category whose listing has two product pages; every URL serves the
  same document, so the two products have the same name.
\<close>

definition shopWeb :: "string \<Rightarrow> nat \<Rightarrow> doc response" where
  "shopWeb = serve (shopDoc [(''/shop/category/fundas-1'', ''Fundas'')])"

definition demoCollect :: "string \<Rightarrow> string \<Rightarrow> productEntry list" where
  "demoCollect name u =
     [\<lparr>url = ''https://www.my-shop.mx/shop/funda-x-1'', imagen64 = [], category = name\<rparr>,
      \<lparr>url = ''https://www.my-shop.mx/shop/funda-x-2'', imagen64 = [], category = name\<rparr>]"

definition demoProduct :: "string \<Rightarrow> string \<Rightarrow> Product" where
  "demoProduct c u =
     \<lparr>Nombre = ''Funda X'', Precio = 30, PrecioOriginal = 30, EnOferta = False,
      Stock = ''Disponible'', Imagen = [], Imagen64 = [], Link = u, Categoria = c,
      Subcategorias = [''Phones'', ''Cases'']\<rparr>"

text \<open>The same two product pages, listed under two different categories.\<close>

definition mixCollect :: "string \<Rightarrow> string \<Rightarrow> productEntry list" where
  "mixCollect name u =
     [\<lparr>url = ''https://www.my-shop.mx/shop/funda-x-1'', imagen64 = [], category = ''Micas''\<rparr>,
      \<lparr>url = ''https://www.my-shop.mx/shop/funda-x-2'', imagen64 = [], category = ''Fundas''\<rparr>]"

text \<open>Two schedules of two workers: the first worker finishes first, or the second.\<close>

definition schedA :: "nat list" where
  "schedA = [0, 1, 0, 1, 0, 1]"

definition schedB :: "nat list" where
  "schedB = [0, 1, 1, 0, 0, 1]"

definition url1 :: string where
  "url1 = ''https://www.my-shop.mx/shop/funda-x-1''"

definition url2 :: string where
  "url2 = ''https://www.my-shop.mx/shop/funda-x-2''"












section \<open>Properties of the HTML normalizers\<close>


lemma resolveCategory_fst_nonempty:
  "\<forall>x\<in>set xs. x \<noteq> [] \<Longrightarrow> fst (resolveCategory cat xs) \<noteq> []"
  by (simp add: resolveCategory_def Let_def)

lemma scrapeProduct_Inr:
  assumes "fetchDoc (client (url e)) = Inr d" and "scrapeProduct ext client e = Inr p"
  shows "Categoria p = fst (resolveCategory (category e) (filter keepLabel (map TrimSpace (sel_breadcrumb d))))"
    and "Subcategorias p = snd (resolveCategory (category e) (filter keepLabel (map TrimSpace (sel_breadcrumb d))))"
    and "Stock p = scrapeStock d"
    and "Precio p = scrapePrecio ext d"
    and "PrecioOriginal p = fst (scrapeOriginal ext d (scrapePrecio ext d))"
    and "EnOferta p = snd (scrapeOriginal ext d (scrapePrecio ext d))"
    and "Link p = url e"
  using assms by (auto simp: scrapeProduct_def Let_def split: prod.splits)

lemma scrapeProduct_Inr_ex:
  "scrapeProduct ext client e = Inr p \<Longrightarrow> \<exists>d. fetchDoc (client (url e)) = Inr d"
  by (auto simp: scrapeProduct_def split: sum.splits)

lemma scrapeProduct_re_Inr:
  assumes "fetchHTML (client (url e)) = Inr b" and "scrapeProduct_re ent ext client e = Inr p"
  shows "Categoria p = fst (resolveCategory (category e) (filter keepLabel (map (\<lambda>m. UnescapeString ent (TrimSpace m)) (re_Breadcrumb b))))"
    and "Subcategorias p = snd (resolveCategory (category e) (filter keepLabel (map (\<lambda>m. UnescapeString ent (TrimSpace m)) (re_Breadcrumb b))))"
    and "Stock p = scrapeStock_re b"
    and "Precio p = scrapePrecio_re ext b"
    and "PrecioOriginal p = fst (scrapeOriginal_re ext b (scrapePrecio_re ext b))"
    and "EnOferta p = snd (scrapeOriginal_re ext b (scrapePrecio_re ext b))"
    and "Link p = url e"
  using assms by (auto simp: scrapeProduct_re_def Let_def split: prod.splits)

lemma scrapeProduct_re_Inr_ex:
  "scrapeProduct_re ent ext client e = Inr p \<Longrightarrow> \<exists>b. fetchHTML (client (url e)) = Inr b"
  by (auto simp: scrapeProduct_re_def split: sum.splits)



lemma fetchDoc_serve: "fetchDoc (serve d u) = Inr d"
  by (simp add: fetchDoc_def maxRetries_def serve_def numeral_3_eq_3)

lemma fetchHTML_serve: "fetchHTML (serve d u) = Inr d"
  by (simp add: fetchHTML_def maxRetries_def serve_def numeral_3_eq_3)

lemma scrapeProduct_serve: "\<exists>p. scrapeProduct ext (serve d) e = Inr p"
  by (simp add: scrapeProduct_def fetchDoc_serve Let_def split: prod.splits)

lemma scrapeProduct_re_serve: "\<exists>p. scrapeProduct_re ent ext (serve b) e = Inr p"
  by (simp add: scrapeProduct_re_def fetchHTML_serve Let_def split: prod.splits)









section \<open>Properties of the price, sale and stock fields\<close>

lemma Round_of_int: "Round (of_int n) = of_int n"
  unfolding Round_def by (auto; linarith)

lemma Round_numeral: "Round (numeral k) = numeral k"
  using Round_of_int [of "numeral k"] by simp

lemma convertPrice_2700: "convertPrice ''2700'' 2 = 27"
  by (simp add: convertPrice_def Atoi_def isDigit_def digitsVal_def digitVal_def Pow10_def Round_numeral)

lemma convertPrice_3000: "convertPrice ''3000'' 2 = 30"
  by (simp add: convertPrice_def Atoi_def isDigit_def digitsVal_def digitVal_def Pow10_def Round_numeral)

lemma convertPrice_2450: "convertPrice ''2450'' 2 = 49 / 2"
  by (simp add: convertPrice_def Atoi_def isDigit_def digitsVal_def digitVal_def Pow10_def Round_numeral)

lemma convertPrice_empty: "convertPrice [] k = 0"
  by (simp add: convertPrice_def)

lemma parseProduct_fields:
  "Precio (parseProduct c ap) =
     (if OnSale ap \<and> SalePrice (Prices ap) \<noteq> []
      then convertPrice (SalePrice (Prices ap)) (CurrencyMinorUnit (Prices ap))
      else convertPrice (Price (Prices ap)) (CurrencyMinorUnit (Prices ap)))"
  "PrecioOriginal (parseProduct c ap) =
     convertPrice (RegularPrice (Prices ap)) (CurrencyMinorUnit (Prices ap))"
  "EnOferta (parseProduct c ap) = OnSale ap"
  "Stock (parseProduct c ap) = Text (StockAvailability ap)"
  "Link (parseProduct c ap) = Permalink ap"
  "Categoria (parseProduct c ap) = c"
  "Nombre (parseProduct c ap) = Name ap"
  by (simp_all add: parseProduct_def Let_def)

text \<open>
  Claim C3, as amended. The JSON normalizer takes the list price from the regular price
  string, so the first example needs it: a product whose price and regular price strings
  are both \<open>2700\<close>, with minor unit 2, no sale price and the sale flag off, gets the
  effective price 27.00, the list price 27.00 and \<open>EnOferta\<close> false. A product with
  regular price \<open>3000\<close>, sale price \<open>2450\<close>, minor unit 2 and the sale flag set gets the
  effective price 24.50, the list price 30.00 and \<open>EnOferta\<close> true.
\<close>

theorem C3_price_examples:
  "(Price (Prices ap) = ''2700'' \<and> RegularPrice (Prices ap) = ''2700'' \<and>
    SalePrice (Prices ap) = [] \<and> \<not> OnSale ap \<and> CurrencyMinorUnit (Prices ap) = 2 \<longrightarrow>
      Precio (parseProduct c ap) = 27 \<and> PrecioOriginal (parseProduct c ap) = 27 \<and>
      \<not> EnOferta (parseProduct c ap)) \<and>
   (RegularPrice (Prices ap') = ''3000'' \<and> SalePrice (Prices ap') = ''2450'' \<and> OnSale ap' \<and>
    CurrencyMinorUnit (Prices ap') = 2 \<longrightarrow>
      Precio (parseProduct c' ap') = 49 / 2 \<and> PrecioOriginal (parseProduct c' ap') = 30 \<and>
      EnOferta (parseProduct c' ap'))"
  by (simp add: parseProduct_fields convertPrice_2700 convertPrice_3000 convertPrice_2450)

text \<open>The two examples of claim C3 on concrete API products.\<close>

theorem C3_price_examples_witness:
  "Precio (parseProduct ''Fundas'' (demoAPI ''2700'' ''2700'' [] False)) = 27 \<and>
   PrecioOriginal (parseProduct ''Fundas'' (demoAPI ''2700'' ''2700'' [] False)) = 27 \<and>
   \<not> EnOferta (parseProduct ''Fundas'' (demoAPI ''2700'' ''2700'' [] False)) \<and>
   Precio (parseProduct ''Fundas'' (demoAPI ''2450'' ''3000'' ''2450'' True)) = 49 / 2 \<and>
   PrecioOriginal (parseProduct ''Fundas'' (demoAPI ''2450'' ''3000'' ''2450'' True)) = 30 \<and>
   EnOferta (parseProduct ''Fundas'' (demoAPI ''2450'' ''3000'' ''2450'' True))"
  using C3_price_examples [of "demoAPI ''2700'' ''2700'' [] False" "''Fundas''"
      "demoAPI ''2450'' ''3000'' ''2450'' True" "''Fundas''"]
  by (simp add: demoAPI_def)

text \<open>
  Claim C3 as stated fails: a product with price string \<open>2700\<close>, minor unit 2 and no sale
  price, whose regular price string is \<open>3000\<close>, gets the list price 30.00, not 27.00.
\<close>

theorem C3_price_counterexample:
  "Price (Prices (demoAPI ''2700'' ''3000'' [] False)) = ''2700'' \<and>
   CurrencyMinorUnit (Prices (demoAPI ''2700'' ''3000'' [] False)) = 2 \<and>
   SalePrice (Prices (demoAPI ''2700'' ''3000'' [] False)) = [] \<and>
   \<not> OnSale (demoAPI ''2700'' ''3000'' [] False) \<and>
   Precio (parseProduct ''Fundas'' (demoAPI ''2700'' ''3000'' [] False)) = 27 \<and>
   PrecioOriginal (parseProduct ''Fundas'' (demoAPI ''2700'' ''3000'' [] False)) = 30 \<and>
   PrecioOriginal (parseProduct ''Fundas'' (demoAPI ''2700'' ''3000'' [] False)) \<noteq> 27"
  by (simp add: parseProduct_fields demoAPI_def convertPrice_2700 convertPrice_3000)


lemma scrapeOriginal_re_flag:
  "snd (scrapeOriginal_re ext b precio) \<longleftrightarrow> fst (scrapeOriginal_re ext b precio) > precio"
  by (auto simp: scrapeOriginal_re_def Let_def split: option.splits)


lemma scrapeOriginal_flag:
  "snd (scrapeOriginal ext d precio) \<longleftrightarrow> fst (scrapeOriginal ext d precio) > precio"
  by (simp add: scrapeOriginal_def Let_def)


lemma parseDecimal_30: "parseDecimal ''30.00'' = Some 30"
  by (simp add: parseDecimal_def isDigit_def digitsVal_def digitVal_def)








text \<open>
  Claim C5, as amended. In both HTML scrapers \<open>EnOferta\<close> is true exactly when the list
  price is greater than the effective price. In the JSON scraper \<open>EnOferta\<close> is the
  \<open>on_sale\<close> flag of the API, copied as it is.
\<close>

theorem C5_on_sale_flag:
  "(scrapeProduct_re ent ext' client' e' = Inr p' \<longrightarrow>
      (EnOferta p' \<longleftrightarrow> PrecioOriginal p' > Precio p')) \<and>
   (scrapeProduct ext client e = Inr p \<longrightarrow>
      (EnOferta p \<longleftrightarrow> PrecioOriginal p > Precio p)) \<and>
   EnOferta (parseProduct c ap) = OnSale ap"
proof (intro conjI impI)
  assume s: "scrapeProduct_re ent ext' client' e' = Inr p'"
  then obtain b where f: "fetchHTML (client' (url e')) = Inr b"
    using scrapeProduct_re_Inr_ex by blast
  show "EnOferta p' \<longleftrightarrow> PrecioOriginal p' > Precio p'"
    unfolding scrapeProduct_re_Inr(4,5,6) [OF f s] by (rule scrapeOriginal_re_flag)
next
  assume s: "scrapeProduct ext client e = Inr p"
  then obtain d where f: "fetchDoc (client (url e)) = Inr d"
    using scrapeProduct_Inr_ex by blast
  show "EnOferta p \<longleftrightarrow> PrecioOriginal p > Precio p"
    unfolding scrapeProduct_Inr(4,5,6) [OF f s] by (rule scrapeOriginal_flag)
qed (simp add: parseProduct_fields)

text \<open>Claim C5 as amended, on one concrete page of each HTML scraper.\<close>

theorem C5_on_sale_flag_witness:
  "(\<exists>p. scrapeProduct_re id noExt (serve demoPage) (demoEntry ''Cases'') = Inr p \<and>
        (EnOferta p \<longleftrightarrow> PrecioOriginal p > Precio p)) \<and>
   (\<exists>p. scrapeProduct noExt (serve demoDoc) (demoEntry ''Cases'') = Inr p \<and>
        (EnOferta p \<longleftrightarrow> PrecioOriginal p > Precio p))"
proof
  obtain p where p: "scrapeProduct_re id noExt (serve demoPage) (demoEntry ''Cases'') = Inr p"
    using scrapeProduct_re_serve by blast
  with C5_on_sale_flag [THEN conjunct1, of id noExt "serve demoPage" "demoEntry ''Cases''" p]
  show "\<exists>p. scrapeProduct_re id noExt (serve demoPage) (demoEntry ''Cases'') = Inr p \<and>
        (EnOferta p \<longleftrightarrow> PrecioOriginal p > Precio p)" by blast
next
  obtain p where p: "scrapeProduct noExt (serve demoDoc) (demoEntry ''Cases'') = Inr p"
    using scrapeProduct_serve by blast
  with C5_on_sale_flag [THEN conjunct2, THEN conjunct1, of noExt "serve demoDoc" "demoEntry ''Cases''" p]
  show "\<exists>p. scrapeProduct noExt (serve demoDoc) (demoEntry ''Cases'') = Inr p \<and>
        (EnOferta p \<longleftrightarrow> PrecioOriginal p > Precio p)" by blast
qed

text \<open>
  Claim C5 as stated fails in the JSON scraper: with the sale flag set and all three price
  strings \<open>2700\<close> the product is on sale although list price and price are both 27.00;
  with the flag off, price \<open>2700\<close> and regular price \<open>3000\<close> it is not on sale although
  the list price 30.00 is greater than the price 27.00.
\<close>

theorem C5_on_sale_flag_counterexample:
  "EnOferta (parseProduct ''Fundas'' (demoAPI ''2700'' ''2700'' ''2700'' True)) \<and>
   Precio (parseProduct ''Fundas'' (demoAPI ''2700'' ''2700'' ''2700'' True)) = 27 \<and>
   PrecioOriginal (parseProduct ''Fundas'' (demoAPI ''2700'' ''2700'' ''2700'' True)) = 27 \<and>
   \<not> EnOferta (parseProduct ''Fundas'' (demoAPI ''2700'' ''3000'' [] False)) \<and>
   Precio (parseProduct ''Fundas'' (demoAPI ''2700'' ''3000'' [] False)) = 27 \<and>
   PrecioOriginal (parseProduct ''Fundas'' (demoAPI ''2700'' ''3000'' [] False)) = 30"
  by (simp add: parseProduct_fields demoAPI_def convertPrice_2700 convertPrice_3000)







section \<open>Properties of the sort\<close>

lemma mset_insertLeft: "mset (insertLeft lt x ys) = add_mset x (mset ys)"
  by (induction ys) auto

lemma mset_foldl_insertLeft:
  "mset (foldl (\<lambda>acc x. insertLeft lt x acc) acc xs) = mset acc + mset xs"
  by (induction xs arbitrary: acc) (auto simp: mset_insertLeft)

lemma mset_insertionSort: "mset (insertionSort lt xs) = mset xs"
  by (simp add: insertionSort_def mset_foldl_insertLeft)

lemma leProduct_iff:
  "leProduct a b \<longleftrightarrow> Categoria a < Categoria b \<or> (Categoria a = Categoria b \<and> Nombre a \<le> Nombre b)"
  by (auto simp: leProduct_def lessProduct_def)

lemma leProduct_trans: "leProduct a b \<Longrightarrow> leProduct b c \<Longrightarrow> leProduct a c"
  by (auto simp: leProduct_iff)

lemma leProduct_total: "leProduct a b \<or> leProduct b a"
  by (auto simp: leProduct_iff)

lemma set_insertLeft: "set (insertLeft lt x ys) = insert x (set ys)"
  by (induction ys) auto

text \<open>The reversed prefix is sorted downwards.\<close>

lemma sorted_insertLeft:
  "sorted_wrt (\<lambda>a b. leProduct b a) ys \<Longrightarrow>
   sorted_wrt (\<lambda>a b. leProduct b a) (insertLeft lessProduct x ys)"
proof (induction ys)
  case Nil
  then show ?case by simp
next
  case (Cons y ys)
  show ?case
  proof (cases "lessProduct x y")
    case True
    then have "leProduct x y" using leProduct_total [of x y] by (auto simp: leProduct_def)
    with Cons True show ?thesis
      by (auto simp: set_insertLeft intro: leProduct_trans)
  next
    case False
    then have "leProduct y x" by (simp add: leProduct_def)
    with Cons False show ?thesis by (auto intro: leProduct_trans)
  qed
qed

lemma sorted_foldl_insertLeft:
  "sorted_wrt (\<lambda>a b. leProduct b a) acc \<Longrightarrow>
   sorted_wrt (\<lambda>a b. leProduct b a) (foldl (\<lambda>acc x. insertLeft lessProduct x acc) acc xs)"
  by (induction xs arbitrary: acc) (auto simp: sorted_insertLeft)

lemma sorted_insertionSort: "sorted_wrt leProduct (insertionSort lessProduct xs)"
  using sorted_foldl_insertLeft [of "[]" xs]
  by (simp add: insertionSort_def sorted_wrt_rev)

lemma insertionSort_ok: "sortSlice_ok lessProduct xs (insertionSort lessProduct xs)"
  using sorted_insertionSort [of xs]
  by (simp add: sortSlice_ok_def mset_insertionSort leProduct_def [abs_def])

lemma pdq_ok_insertionSort: "pdq_ok (insertionSort lessProduct)"
  by (simp add: pdq_ok_def insertionSort_ok)

lemma sortSlice_sound: "pdq_ok pdq \<Longrightarrow> sortSlice_ok lessProduct xs (sortSlice pdq lessProduct xs)"
  by (simp add: sortSlice_def insertionSort_ok pdq_ok_def)

lemma sortSlice_mset: "pdq_ok pdq \<Longrightarrow> mset (sortSlice pdq lessProduct xs) = mset xs"
  using sortSlice_sound [of pdq xs] by (simp add: sortSlice_ok_def)

text \<open>A sorted permutation is unique when the keys are pairwise different.\<close>

lemma lessProduct_key_cases:
  "sortKey a \<noteq> sortKey b \<Longrightarrow> lessProduct a b \<or> lessProduct b a"
  by (auto simp: sortKey_def lessProduct_def)

lemma sorted_unique:
  assumes "sorted_wrt leProduct ys" "sorted_wrt leProduct zs" "mset ys = mset zs"
    and "distinct (map sortKey ys)"
  shows "ys = zs"
  using assms
proof (induction ys arbitrary: zs)
  case Nil
  then show ?case by simp
next
  case (Cons y ys)
  then obtain z zs' where zs: "zs = z # zs'" by (cases zs) auto
  have "y = z"
  proof (rule ccontr)
    assume ne: "y \<noteq> z"
    have yz: "y \<in> set zs'" using Cons.prems(3) ne zs
      by (metis list.set_intros(1) mset_eq_setD set_ConsD)
    have zy: "z \<in> set ys" using Cons.prems(3) ne zs
      by (metis list.set_intros(1) mset_eq_setD set_ConsD)
    have "leProduct z y" using yz Cons.prems(2) zs by auto
    moreover have "leProduct y z" using zy Cons.prems(1) by auto
    ultimately have "sortKey y = sortKey z"
      by (auto simp: leProduct_iff sortKey_def)
    moreover have "sortKey y \<notin> sortKey ` set ys" using Cons.prems(4) by simp
    ultimately show False using zy by auto
  qed
  with Cons zs show ?case by auto
qed

section \<open>Properties of the worker pool of the static scraper\<close>

lemma sum_list_update_mset:
  fixes g :: "'a \<Rightarrow> 'b multiset"
  shows "i < length xs \<Longrightarrow>
    sum_list (map g (xs[i := y])) + g (xs ! i) = sum_list (map g xs) + g y"
proof (induction xs arbitrary: i)
  case Nil
  then show ?case by simp
next
  case (Cons x xs)
  show ?case
  proof (cases i)
    case 0
    then show ?thesis by (simp add: add.commute add.left_commute)
  next
    case (Suc j)
    with Cons.prems have "j < length xs" by simp
    from Cons.IH [OF this] Suc show ?thesis by (simp add: add.assoc)
  qed
qed

lemma poolInv_init: "poolInv scrape allEntries (poolInit n allEntries)"
proof -
  have "sum_list (map (busyGood scrape) (replicate k JRecv)) = {#}" for k
    by (induction k) (simp_all add: busyGood_def)
  then show ?thesis by (simp add: poolInv_def poolInit_def)
qed

lemma set_update_JExit:
  "JExit \<notin> set ws \<Longrightarrow> w \<noteq> JExit \<Longrightarrow> JExit \<notin> set (ws[i := w])"
  by (metis insertE set_update_subset_insert subsetD)

lemma poolInv_step:
  assumes "poolInv scrape allEntries s" and "poolStep scrape i s = Some s'"
  shows "poolInv scrape allEntries s'"
proof -
  from assms(2) have i: "i < length (pworkers s)"
    by (auto simp: poolStep_def split: if_splits)
  note upd = sum_list_update_mset [OF i, of "busyGood scrape"]
  from assms(1) have
    eq: "mset (results s) + sum_list (map (busyGood scrape) (pworkers s))
           + mset (successes scrape (jobs s)) = mset (successes scrape allEntries)"
    and ex: "jobs s = [] \<or> JExit \<notin> set (pworkers s)"
    by (simp_all add: poolInv_def)
  show ?thesis
  proof (cases "pworkers s ! i")
    case JRecv
    show ?thesis
    proof (cases "jobs s")
      case Nil
      with JRecv assms(2) i have s': "s' = s\<lparr>pworkers := (pworkers s)[i := JExit]\<rparr>"
        by (simp add: poolStep_def)
      show ?thesis using eq upd [of JExit] JRecv Nil
        by (simp add: poolInv_def s' busyGood_def)
    next
      case (Cons e js)
      with JRecv assms(2) i have s': "s' = s\<lparr>jobs := js, pworkers := (pworkers s)[i := JBusy e]\<rparr>"
        by (simp add: poolStep_def)
      have "JExit \<notin> set (pworkers s)" using ex Cons by simp
      then have "JExit \<notin> set ((pworkers s)[i := JBusy e])"
        by (rule set_update_JExit) simp
      moreover have "mset (results s) + sum_list (map (busyGood scrape) ((pworkers s)[i := JBusy e]))
           + mset (successes scrape js) = mset (successes scrape allEntries)"
        using eq upd [of "JBusy e"] JRecv Cons
        by (simp add: busyGood_def successes_def add.assoc add.commute add.left_commute)
      ultimately show ?thesis by (simp add: poolInv_def s')
    qed
  next
    case (JBusy e)
    have nex: "jobs s = [] \<or> JExit \<notin> set ((pworkers s)[i := JRecv])"
      using ex set_update_JExit [of "pworkers s" JRecv i] by auto
    show ?thesis
    proof (cases "scrape e")
      case (Inl a)
      with JBusy assms(2) i have s': "s' = s\<lparr>pworkers := (pworkers s)[i := JRecv]\<rparr>"
        by (simp add: poolStep_def)
      show ?thesis using eq upd [of JRecv] JBusy Inl nex
        by (simp add: poolInv_def s' busyGood_def good_def)
    next
      case (Inr p)
      with JBusy assms(2) i have s': "s' = s\<lparr>results := results s @ [p],
          pworkers := (pworkers s)[i := JRecv]\<rparr>"
        by (simp add: poolStep_def)
      have u: "sum_list (map (busyGood scrape) (pworkers s))
           = add_mset p (sum_list (map (busyGood scrape) ((pworkers s)[i := JRecv])))"
        using upd [of JRecv] JBusy Inr by (simp add: busyGood_def good_def)
      have "mset (results s @ [p]) + sum_list (map (busyGood scrape) ((pworkers s)[i := JRecv]))
           + mset (successes scrape (jobs s)) = mset (successes scrape allEntries)"
        using eq unfolding u by simp
      then show ?thesis using nex by (simp add: poolInv_def s')
    qed
  next
    case JExit
    with assms(2) i show ?thesis by (simp add: poolStep_def)
  qed
qed

lemma poolInv_exec:
  "poolInv scrape allEntries s \<Longrightarrow> poolExec scrape s sched = Some s' \<Longrightarrow> poolInv scrape allEntries s'"
proof (induction sched arbitrary: s)
  case Nil
  then show ?case by simp
next
  case (Cons i sched)
  then show ?case by (auto split: option.splits dest: poolInv_step)
qed

lemma sum_list_all_JExit:
  "list_all (\<lambda>w. w = JExit) ws \<Longrightarrow> sum_list (map (busyGood scrape) ws) = {#}"
  by (induction ws) (simp_all add: busyGood_def)

lemma poolExec_length:
  "poolExec scrape s sched = Some s' \<Longrightarrow> length (pworkers s') = length (pworkers s)"
proof (induction sched arbitrary: s)
  case Nil
  then show ?case by simp
next
  case (Cons i sched)
  then show ?case
    by (auto simp: poolStep_def split: option.splits if_splits jstate.splits list.splits sum.splits)
qed


lemma poolRun_all:
  assumes "poolRun scrape n allEntries sched = Some products" and "0 < n"
  shows "mset products = mset (successes scrape allEntries)"
proof -
  from assms obtain s where ex: "poolExec scrape (poolInit n allEntries) sched = Some s"
    and fin: "list_all (\<lambda>w. w = JExit) (pworkers s)" and r: "products = results s"
    by (auto simp: poolRun_def split: option.splits if_splits)
  have "length (pworkers s) = nat n"
    using poolExec_length [OF ex] by (simp add: poolInit_def)
  with \<open>0 < n\<close> fin have "JExit \<in> set (pworkers s)"
    by (cases "pworkers s") auto
  with poolInv_exec [OF poolInv_init ex] have "jobs s = []" by (auto simp: poolInv_def)
  with poolInv_exec [OF poolInv_init ex] show ?thesis
    by (simp add: poolInv_def sum_list_all_JExit [OF fin] r successes_def)
qed

section \<open>Properties of the listing phase and of the runs of the static scraper\<close>









lemma run_Some:
  assumes "run ext client collect rangeOrder pdq wr numWorkers sched = Some r"
  shows "(\<exists>e. fetchCategories client = Inl e \<and> written r = [] \<and> failure r = Some e \<and> launched r = 0
             \<and> issued r = []) \<or>
         (\<exists>cats products. fetchCategories client = Inr cats \<and>
            poolRun (scrapeProduct ext client) numWorkers (collectAll collect (rangeOrder cats)) sched
              = Some products \<and>
            issued r = collectAll collect (rangeOrder cats) \<and> launched r = nat numWorkers \<and>
            written r = (if wr then [sortSlice pdq lessProduct products] else []) \<and>
            failure r = (if wr then None else Some WriteFailed))"
  using assms by (auto simp: run_def Let_def split: sum.splits option.splits)



section \<open>The example runs\<close>

lemma scrape_demo:
  "c \<noteq> [] \<Longrightarrow>
   scrapeProduct noExt shopWeb \<lparr>url = u, imagen64 = [], category = c\<rparr> = Inr (demoProduct c u)"
  by (simp add: scrapeProduct_def shopWeb_def fetchDoc_serve shopDoc_def demoDoc_def
      scrapePrecio_def ParseFloat_def parseDecimal_30 scrapeOriginal_def TrimSpace_def isSpace_def
      scrapeStock_def noExiste_def anadirAlCarrito_def HasPrefix_def demoProduct_def
      resolveCategory_def keepLabel_def EqualFold_def toLower_def lowerTable_def Let_def)

lemma scrape_fundas:
  "scrapeProduct noExt shopWeb \<lparr>url = u, imagen64 = [], category = ''Fundas''\<rparr>
     = Inr (demoProduct ''Fundas'' u)"
  by (rule scrape_demo) simp

lemma scrape_micas:
  "scrapeProduct noExt shopWeb \<lparr>url = u, imagen64 = [], category = ''Micas''\<rparr>
     = Inr (demoProduct ''Micas'' u)"
  by (rule scrape_demo) simp

lemma fetchCategories_shopWeb:
  "fetchCategories shopWeb = Inr [(''Fundas'', ''https://www.my-shop.mx/shop/category/fundas-1'')]"
  by (simp add: fetchCategories_def shopWeb_def fetchDoc_serve shopDoc_def TrimSpace_def isSpace_def
      absURL_def HasPrefix_def baseURL_def)

lemma collectAll_demo:
  "collectAll demoCollect [(''Fundas'', u)] =
     [\<lparr>url = url1, imagen64 = [], category = ''Fundas''\<rparr>,
      \<lparr>url = url2, imagen64 = [], category = ''Fundas''\<rparr>]"
  by (simp add: collectAll_def demoCollect_def addEntry_def url1_def url2_def)

lemma collectAll_mix:
  "collectAll mixCollect [(''Fundas'', u)] =
     [\<lparr>url = url1, imagen64 = [], category = ''Micas''\<rparr>,
      \<lparr>url = url2, imagen64 = [], category = ''Fundas''\<rparr>]"
  by (simp add: collectAll_def mixCollect_def addEntry_def url1_def url2_def)

lemma poolRun_two:
  assumes "scrape e1 = Inr p1" "scrape e2 = Inr p2"
  shows "poolRun scrape 2 [e1, e2] schedA = Some [p1, p2]"
    and "poolRun scrape 2 [e1, e2] schedB = Some [p2, p1]"
  using assms
  by (simp_all add: poolRun_def poolInit_def poolStep_def schedA_def schedB_def numeral_2_eq_2)

lemma insertionSort_two:
  "insertionSort lt [a, b] = (if lt b a then [b, a] else [a, b])"
  by (simp add: insertionSort_def)

lemma sortSlice_two:
  "sortSlice pdq lt [a, b] = (if lt b a then [b, a] else [a, b])"
  by (simp add: sortSlice_def insertionSort_two)

lemma less_demo:
  "\<not> lessProduct (demoProduct c u) (demoProduct c v)"
  "lessProduct (demoProduct ''Fundas'' u) (demoProduct ''Micas'' v)"
  "\<not> lessProduct (demoProduct ''Micas'' u) (demoProduct ''Fundas'' v)"
  by (simp_all add: lessProduct_def demoProduct_def)

lemma run_demo:
  "run noExt shopWeb demoCollect id pdq True 2 schedA =
     Some \<lparr>launched = 2,
           issued = [\<lparr>url = url1, imagen64 = [], category = ''Fundas''\<rparr>,
                     \<lparr>url = url2, imagen64 = [], category = ''Fundas''\<rparr>],
           written = [[demoProduct ''Fundas'' url1, demoProduct ''Fundas'' url2]], failure = None\<rparr>"
  "run noExt shopWeb demoCollect id pdq True 2 schedB =
     Some \<lparr>launched = 2,
           issued = [\<lparr>url = url1, imagen64 = [], category = ''Fundas''\<rparr>,
                     \<lparr>url = url2, imagen64 = [], category = ''Fundas''\<rparr>],
           written = [[demoProduct ''Fundas'' url2, demoProduct ''Fundas'' url1]], failure = None\<rparr>"
  by (simp_all add: run_def fetchCategories_shopWeb collectAll_demo
      poolRun_two [where scrape = "scrapeProduct noExt shopWeb", OF scrape_fundas scrape_fundas]
      sortSlice_two less_demo)

lemma run_mix:
  "run noExt shopWeb mixCollect id pdq True 2 schedA =
     Some \<lparr>launched = 2,
           issued = [\<lparr>url = url1, imagen64 = [], category = ''Micas''\<rparr>,
                     \<lparr>url = url2, imagen64 = [], category = ''Fundas''\<rparr>],
           written = [[demoProduct ''Fundas'' url2, demoProduct ''Micas'' url1]], failure = None\<rparr>"
  "run noExt shopWeb mixCollect id pdq True 2 schedB =
     Some \<lparr>launched = 2,
           issued = [\<lparr>url = url1, imagen64 = [], category = ''Micas''\<rparr>,
                     \<lparr>url = url2, imagen64 = [], category = ''Fundas''\<rparr>],
           written = [[demoProduct ''Fundas'' url2, demoProduct ''Micas'' url1]], failure = None\<rparr>"
  by (simp_all add: run_def fetchCategories_shopWeb collectAll_mix
      poolRun_two [where scrape = "scrapeProduct noExt shopWeb", OF scrape_micas scrape_fundas]
      sortSlice_two less_demo)






section \<open>Properties of the runs\<close>

lemma attempts_retried:
  "(\<And>k. k < n \<Longrightarrow> retried (net (a + k))) \<Longrightarrow> attempts n a net = Inl RetriesExhausted"
proof (induction n arbitrary: a)
  case 0
  then show ?case by simp
next
  case (Suc n)
  have r: "retried (net a)" using Suc.prems [of 0] by simp
  have "attempts n (Suc a) net = Inl RetriesExhausted"
    using Suc.prems [of "Suc _"] by (intro Suc.IH) simp
  with r show ?case
    by (auto simp: retried_def split: response.splits option.splits)
qed

lemma fetchDoc_retried:
  "(\<And>k. k < maxRetries \<Longrightarrow> retried (net k)) \<Longrightarrow> fetchDoc net = Inl RetriesExhausted"
  unfolding fetchDoc_def using attempts_retried [of maxRetries net 0] by simp

lemma run_discovery_error:
  "fetchCategories client = Inl e \<Longrightarrow>
   run ext client collect rangeOrder pdq wr numWorkers sched =
     Some \<lparr>launched = 0, issued = [], written = [], failure = Some e\<rparr>"
  by (simp add: run_def)

lemma categoriesFrom_error:
  "retried (api pg) \<Longrightarrow> categoriesFrom api pg cs = Some (Inl RequestFailed)"
  by (subst categoriesFrom.simps) (auto simp: retried_def split: response.splits option.splits)

text \<open>
  Claim C9, as amended. When the discovery request of the static scraper fails (all
  three attempts of \<open>fetchDoc\<close> are answered by a retry), \<open>run\<close> returns that error
  with no worker launched, no job issued and nothing written. When the discovery of the
  dynamic scraper fails (its first failed request is final, there is no retry) or
  yields no category, \<open>main\<close> ends with the fatal error and \<open>run\<close> is never started.
\<close>

theorem C9_discovery_failure:
  "(fetchCategories client = Inl e \<longrightarrow>
      run ext client collect rangeOrder pdq wr numWorkers sched =
        Some \<lparr>launched = 0, issued = [], written = [], failure = Some e\<rparr>) \<and>
   ((\<forall>k<maxRetries. retried (client shopURL k)) \<longrightarrow>
      run ext client collect rangeOrder pdq wr numWorkers sched =
        Some \<lparr>launched = 0, issued = [], written = [], failure = Some RetriesExhausted\<rparr>) \<and>
   (fetchCategories_api catApi = Some (Inl e') \<longrightarrow>
      main_api catApi rangeOrder' wr' numWorkers' = Some (Inl e')) \<and>
   (retried (catApi 1) \<longrightarrow>
      main_api catApi rangeOrder' wr' numWorkers' = Some (Inl RequestFailed)) \<and>
   (fetchCategories_api catApi = Some (Inr []) \<longrightarrow>
      main_api catApi rangeOrder' wr' numWorkers' = Some (Inl NoCategories))"
proof (intro conjI impI)
  assume "fetchCategories client = Inl e"
  then show "run ext client collect rangeOrder pdq wr numWorkers sched =
        Some \<lparr>launched = 0, issued = [], written = [], failure = Some e\<rparr>"
    by (rule run_discovery_error)
next
  assume "\<forall>k<maxRetries. retried (client shopURL k)"
  then have "fetchDoc (client shopURL) = Inl RetriesExhausted"
    by (intro fetchDoc_retried) simp
  then have "fetchCategories client = Inl RetriesExhausted"
    by (simp add: fetchCategories_def)
  then show "run ext client collect rangeOrder pdq wr numWorkers sched =
        Some \<lparr>launched = 0, issued = [], written = [], failure = Some RetriesExhausted\<rparr>"
    by (rule run_discovery_error)
next
  assume "fetchCategories_api catApi = Some (Inl e')"
  then show "main_api catApi rangeOrder' wr' numWorkers' = Some (Inl e')"
    by (simp add: main_api_def)
next
  assume "retried (catApi 1)"
  then have "fetchCategories_api catApi = Some (Inl RequestFailed)"
    unfolding fetchCategories_api_def by (rule categoriesFrom_error)
  then show "main_api catApi rangeOrder' wr' numWorkers' = Some (Inl RequestFailed)"
    by (simp add: main_api_def)
next
  assume "fetchCategories_api catApi = Some (Inr [])"
  then show "main_api catApi rangeOrder' wr' numWorkers' = Some (Inl NoCategories)"
    by (simp add: main_api_def)
qed

lemma fetchCategories_api_empty: "fetchCategories_api catApiEmpty = Some (Inr [])"
  unfolding fetchCategories_api_def
  by (subst categoriesFrom.simps) (simp add: catApiEmpty_def)

text \<open>Claim C9 as amended, on a shop that answers 503 and on a category API that is down or empty.\<close>

theorem C9_discovery_failure_witness:
  "run noExt failing noCollect id id True 3 [0, 1, 2] =
     Some \<lparr>launched = 0, issued = [], written = [], failure = Some RetriesExhausted\<rparr> \<and>
   main_api catApiDown id allWrites 3 = Some (Inl RequestFailed) \<and>
   main_api catApiEmpty id allWrites 3 = Some (Inl NoCategories)"
proof (intro conjI)
  have "\<forall>k<maxRetries. retried (failing shopURL k)"
    by (simp add: retried_def failing_def)
  with C9_discovery_failure [THEN conjunct2, THEN conjunct1, of failing]
  show "run noExt failing noCollect id id True 3 [0, 1, 2] =
     Some \<lparr>launched = 0, issued = [], written = [], failure = Some RetriesExhausted\<rparr>"
    by blast
next
  have "retried (catApiDown 1)" by (simp add: retried_def catApiDown_def)
  with C9_discovery_failure [THEN conjunct2, THEN conjunct2, THEN conjunct2, THEN conjunct1, of catApiDown]
  show "main_api catApiDown id allWrites 3 = Some (Inl RequestFailed)" by blast
next
  from fetchCategories_api_empty
    C9_discovery_failure [THEN conjunct2, THEN conjunct2, THEN conjunct2, THEN conjunct2, of catApiEmpty]
  show "main_api catApiEmpty id allWrites 3 = Some (Inl NoCategories)" by blast
qed

lemma fetchCategories_none: "fetchCategories (serve (shopDoc [])) = Inr []"
  by (simp add: fetchCategories_def fetchDoc_serve shopDoc_def)

lemma poolRun_idle: "poolRun scrape 3 [] [0, 1, 2] = Some []"
  by (simp add: poolRun_def poolInit_def poolStep_def numeral_3_eq_3)

lemma insertionSort_Nil: "insertionSort lt [] = []"
  by (simp add: insertionSort_def)

text \<open>
  Claim C9 as stated fails in the static scraper: on a shop page without category
  links the discovery succeeds with zero categories, and \<open>run\<close> launches its three
  workers, writes the empty list and returns without error.
\<close>

theorem C9_discovery_failure_counterexample:
  "fetchCategories (serve (shopDoc [])) = Inr [] \<and>
   run noExt (serve (shopDoc [])) noCollect id id True 3 [0, 1, 2] =
     Some \<lparr>launched = 3, issued = [], written = [[]], failure = None\<rparr>"
  using poolRun_idle [of "scrapeProduct noExt (serve (shopDoc []))"]
  by (simp add: fetchCategories_none run_def collectAll_def sortSlice_def insertionSort_Nil)

section \<open>Properties of the persisted list\<close>




subsection \<open>The final write of the dynamic scraper\<close>

lemma workerStep_main_fields:
  "workerStep api i s = Some s' \<Longrightarrow>
   mainpc s' = mainpc s \<and> persisted s' = persisted s \<and> allProducts s' = allProducts s"
  by (auto simp: workerStep_def setWorker_def split: if_splits wstate.splits list.splits sum.splits)

lemma monitorStep_main_fields:
  "monitorStep s = Some s' \<Longrightarrow>
   mainpc s' = mainpc s \<and> persisted s' = persisted s \<and> allProducts s' = allProducts s"
  by (auto simp: monitorStep_def split: if_splits mstate.splits)

lemma mainStep_doneInv:
  "pdq_ok pdq \<Longrightarrow> mainStep pdq wr s = Some s' \<Longrightarrow> doneInv s'"
  using sortSlice_sound [of pdq "allProducts s"]
  by (auto simp: mainStep_def doneInv_def Let_def sortSlice_ok_def leProduct_def [abs_def]
      split: mstate.splits list.splits if_splits)

lemma step_doneInv:
  assumes "pdq_ok pdq" "doneInv s" "step api pdq wr a s = Some s'"
  shows "doneInv s'"
proof (cases a)
  case AMain
  with assms show ?thesis by (auto simp: step_def split: if_splits dest: mainStep_doneInv)
next
  case AMonitor
  with assms(3) have "monitorStep s = Some s'" by (simp add: step_def split: if_splits)
  from monitorStep_main_fields [OF this] assms(2) show ?thesis by (simp add: doneInv_def)
next
  case (AWorker i)
  with assms(3) have "workerStep api i s = Some s'" by (simp add: step_def split: if_splits)
  from workerStep_main_fields [OF this] assms(2) show ?thesis by (simp add: doneInv_def)
qed

lemma exec_doneInv:
  "pdq_ok pdq \<Longrightarrow> doneInv s \<Longrightarrow> exec api pdq wr s acts = Some s' \<Longrightarrow> doneInv s'"
proof (induction acts arbitrary: s)
  case Nil
  then show ?case by simp
next
  case (Cons a acts)
  then show ?case by (auto split: option.splits dest: step_doneInv)
qed

lemma runInit_Inr:
  "runInit rangeOrder wr cats n = Inr s0 \<Longrightarrow>
   s0 = \<lparr>pending = 0, tasksCh = [], tasksClosed = False, resultsCh = [],
         workers = replicate (nat n) WRecv, mainpc = MSeedInc (rangeOrder cats),
         allProducts = [], logged = [], nwrites = 1, persisted = [[]]\<rparr>"
  by (auto simp: runInit_def split: if_splits)

lemma reachable_doneInv:
  assumes "pdq_ok pdq" "reachable api pdq wr rangeOrder cats n s"
  shows "doneInv s"
proof -
  from assms(2) obtain s0 acts where i: "runInit rangeOrder wr cats n = Inr s0"
    and e: "exec api pdq wr s0 acts = Some s"
    by (auto simp: reachable_def)
  have "doneInv s0" using runInit_Inr [OF i] by (simp add: doneInv_def)
  then show ?thesis using exec_doneInv [OF assms(1) _ e] by blast
qed

lemma sortSlice_sorted: "pdq_ok pdq \<Longrightarrow> sorted_wrt leProduct (sortSlice pdq lessProduct ps)"
  using sortSlice_sound [of pdq ps] by (simp add: sortSlice_ok_def leProduct_def [abs_def])

lemma sortSlice_order_free:
  assumes "pdq_ok pdq" "mset ps = mset qs" "distinct (map sortKey ps)"
  shows "sortSlice pdq lessProduct ps = sortSlice pdq lessProduct qs"
proof (rule sorted_unique)
  show "sorted_wrt leProduct (sortSlice pdq lessProduct ps)"
    using assms(1) by (rule sortSlice_sorted)
  show "sorted_wrt leProduct (sortSlice pdq lessProduct qs)"
    using assms(1) by (rule sortSlice_sorted)
  show "mset (sortSlice pdq lessProduct ps) = mset (sortSlice pdq lessProduct qs)"
    using assms(1,2) by (simp add: sortSlice_mset)
  have "mset (map sortKey (sortSlice pdq lessProduct ps)) = mset (map sortKey ps)"
    using sortSlice_mset [OF assms(1), of ps] by simp
  then show "distinct (map sortKey (sortSlice pdq lessProduct ps))"
    using assms(3) by (metis mset_eq_imp_distinct_iff)
qed

lemma run_order_free:
  assumes ok: "pdq_ok pdq" and n: "0 < numWorkers"
    and r1: "run ext client collect rangeOrder pdq wr numWorkers sched1 = Some r1"
    and r2: "run ext client collect rangeOrder pdq wr numWorkers sched2 = Some r2"
    and k: "\<forall>ps\<in>set (written r1). distinct (map sortKey ps)"
  shows "written r1 = written r2"
proof (cases "fetchCategories client")
  case (Inl e)
  with r1 r2 show ?thesis by (simp add: run_def)
next
  case (Inr cats)
  let ?es = "collectAll collect (rangeOrder cats)"
  from run_Some [OF r1] Inr obtain p1 where
    p1: "poolRun (scrapeProduct ext client) numWorkers ?es sched1 = Some p1"
    and w1: "written r1 = (if wr then [sortSlice pdq lessProduct p1] else [])"
    by auto
  from run_Some [OF r2] Inr obtain p2 where
    p2: "poolRun (scrapeProduct ext client) numWorkers ?es sched2 = Some p2"
    and w2: "written r2 = (if wr then [sortSlice pdq lessProduct p2] else [])"
    by auto
  show ?thesis
  proof (cases wr)
    case True
    have m: "mset p1 = mset p2"
      using poolRun_all [OF p1 n] poolRun_all [OF p2 n] by simp
    have "distinct (map sortKey (sortSlice pdq lessProduct p1))"
      using k w1 True by simp
    moreover have "mset (map sortKey (sortSlice pdq lessProduct p1)) = mset (map sortKey p1)"
      using sortSlice_mset [OF ok, of p1] by simp
    ultimately have "distinct (map sortKey p1)" by (metis mset_eq_imp_distinct_iff)
    with ok m have "sortSlice pdq lessProduct p1 = sortSlice pdq lessProduct p2"
      by (rule sortSlice_order_free)
    with w1 w2 show ?thesis by simp
  next
    case False
    with w1 w2 show ?thesis by simp
  qed
qed

lemma run_sorted:
  assumes "pdq_ok pdq" "run ext client collect rangeOrder pdq wr numWorkers sched = Some r"
    "ps \<in> set (written r)"
  shows "sorted_wrt leProduct ps"
  using run_Some [OF assms(2)] assms(1,3) by (auto split: if_splits simp: sortSlice_sorted)

text \<open>
  Claim C8, as amended. The list \<open>sort.Slice\<close> returns is a permutation of the collected
  products in which the category ascends and, within a category, the name ascends;
  when no two collected products have the same category and name, it is the same list
  for every order in which the same products arrive. So every list the static scraper
  writes is sorted, two runs of it that differ only in the schedule of the workers write
  the same list when the sort keys are pairwise different, and the last list the dynamic
  scraper has persisted when \<open>run\<close> returns is the sorted list of all products.
\<close>

theorem C8_sorted_output:
  "(pdq_ok pdq \<longrightarrow>
      mset (sortSlice pdq lessProduct ps) = mset ps \<and>
      sorted_wrt leProduct (sortSlice pdq lessProduct ps)) \<and>
   (pdq_ok pdq \<and> mset ps = mset qs \<and> distinct (map sortKey ps) \<longrightarrow>
      sortSlice pdq lessProduct ps = sortSlice pdq lessProduct qs) \<and>
   (pdq_ok pdq \<and> run ext client collect rangeOrder pdq wr numWorkers sched = Some r \<longrightarrow>
      (\<forall>ws\<in>set (written r). sorted_wrt leProduct ws)) \<and>
   (pdq_ok pdq \<and> 0 < numWorkers \<and>
    run ext client collect rangeOrder pdq wr numWorkers sched1 = Some r1 \<and>
    run ext client collect rangeOrder pdq wr numWorkers sched2 = Some r2 \<and>
    (\<forall>ws\<in>set (written r1). distinct (map sortKey ws)) \<longrightarrow>
      written r1 = written r2) \<and>
   (pdq_ok pdq \<and> reachable api pdq wr' rangeOrder' cats n s \<and> mainpc s = MDone \<longrightarrow>
      persisted s \<noteq> [] \<and> last (persisted s) = allProducts s \<and>
      sorted_wrt leProduct (allProducts s))"
proof (intro conjI impI ballI; (elim conjE)?)
  assume "pdq_ok pdq"
  then show "mset (sortSlice pdq lessProduct ps) = mset ps"
    and "sorted_wrt leProduct (sortSlice pdq lessProduct ps)"
    by (simp_all add: sortSlice_mset sortSlice_sorted)
next
  assume "pdq_ok pdq" "mset ps = mset qs" "distinct (map sortKey ps)"
  then show "sortSlice pdq lessProduct ps = sortSlice pdq lessProduct qs"
    by (rule sortSlice_order_free)
next
  fix ws
  assume "pdq_ok pdq" "run ext client collect rangeOrder pdq wr numWorkers sched = Some r"
    "ws \<in> set (written r)"
  then show "sorted_wrt leProduct ws" by (rule run_sorted)
next
  assume "pdq_ok pdq" "0 < numWorkers"
    "run ext client collect rangeOrder pdq wr numWorkers sched1 = Some r1"
    "run ext client collect rangeOrder pdq wr numWorkers sched2 = Some r2"
    "\<forall>ws\<in>set (written r1). distinct (map sortKey ws)"
  then show "written r1 = written r2" by (rule run_order_free)
next
  assume "pdq_ok pdq" "reachable api pdq wr' rangeOrder' cats n s" "mainpc s = MDone"
  then show "persisted s \<noteq> []" "last (persisted s) = allProducts s"
    "sorted_wrt leProduct (allProducts s)"
    using reachable_doneInv [of pdq api wr' rangeOrder' cats n s] by (simp_all add: doneInv_def)
qed

text \<open>
  Claim C8 as stated fails: two product pages with the same name in the same category
  are written in the order in which the two workers finish, so the two schedules, which
  collect the same two products, write different lists.
\<close>

theorem C8_sorted_output_counterexample:
  "map_option written (run noExt shopWeb demoCollect id (insertionSort lessProduct) True 2 schedA)
     = Some [[demoProduct ''Fundas'' url1, demoProduct ''Fundas'' url2]] \<and>
   map_option written (run noExt shopWeb demoCollect id (insertionSort lessProduct) True 2 schedB)
     = Some [[demoProduct ''Fundas'' url2, demoProduct ''Fundas'' url1]] \<and>
   [demoProduct ''Fundas'' url1, demoProduct ''Fundas'' url2]
     \<noteq> [demoProduct ''Fundas'' url2, demoProduct ''Fundas'' url1] \<and>
   mset [demoProduct ''Fundas'' url1, demoProduct ''Fundas'' url2]
     = mset [demoProduct ''Fundas'' url2, demoProduct ''Fundas'' url1]"
  by (simp add: run_demo demoProduct_def url1_def url2_def)

text \<open>
  Claim C8 as amended, on two runs of the static scraper over two products of different
  categories: both schedules write the same sorted list.
\<close>

theorem C8_sorted_output_witness:
  "pdq_ok (insertionSort lessProduct) \<and>
   map_option written (run noExt shopWeb mixCollect id (insertionSort lessProduct) True 2 schedA)
     = Some [[demoProduct ''Fundas'' url2, demoProduct ''Micas'' url1]] \<and>
   map_option written (run noExt shopWeb mixCollect id (insertionSort lessProduct) True 2 schedB)
     = map_option written (run noExt shopWeb mixCollect id (insertionSort lessProduct) True 2 schedA) \<and>
   sorted_wrt leProduct [demoProduct ''Fundas'' url2, demoProduct ''Micas'' url1]"
proof -
  let ?ra = "\<lparr>launched = 2,
           issued = [\<lparr>url = url1, imagen64 = [], category = ''Micas''\<rparr>,
                     \<lparr>url = url2, imagen64 = [], category = ''Fundas''\<rparr>],
           written = [[demoProduct ''Fundas'' url2, demoProduct ''Micas'' url1]], failure = None\<rparr>"
  have a: "run noExt shopWeb mixCollect id (insertionSort lessProduct) True 2 schedA = Some ?ra"
    by (rule run_mix)
  obtain rb where b: "run noExt shopWeb mixCollect id (insertionSort lessProduct) True 2 schedB = Some rb"
    using run_mix(2) by blast
  have k: "\<forall>ws\<in>set (written ?ra). distinct (map sortKey ws)"
    by (simp add: sortKey_def demoProduct_def)
  note inst = C8_sorted_output [of "insertionSort lessProduct" _ _ noExt shopWeb mixCollect id True 2
      schedA ?ra schedA ?ra schedB rb]
  have "written ?ra = written rb"
    using inst [THEN conjunct2, THEN conjunct2, THEN conjunct2, THEN conjunct1]
      pdq_ok_insertionSort a b k by simp
  moreover have "sorted_wrt leProduct [demoProduct ''Fundas'' url2, demoProduct ''Micas'' url1]"
    using inst [THEN conjunct2, THEN conjunct2, THEN conjunct1] pdq_ok_insertionSort a by simp
  ultimately show ?thesis using pdq_ok_insertionSort a b by simp
qed

section \<open>Properties of the scheduler of the dynamic scraper\<close>

lemma workerStep_cases [consumes 1, case_names recv exit fetchErr fetchEmpty fetchSome decErr
    decEmpty results inc panic send dec]:
  assumes "workerStep api i s = Some s'"
  obtains
    (recv) t q where "i < length (workers s)" "workers s ! i = WRecv" "tasksCh s = t # q"
      "s' = setWorker i (WFetch t) (s\<lparr>tasksCh := q\<rparr>)"
  | (exit) "i < length (workers s)" "workers s ! i = WRecv" "tasksCh s = []" "tasksClosed s"
      "s' = setWorker i WExit s"
  | (fetchErr) t where "i < length (workers s)" "workers s ! i = WFetch t"
      "s' = setWorker i (WDecErr t) (s\<lparr>logged := logged s @ [LogError t]\<rparr>)"
  | (fetchEmpty) t where "i < length (workers s)" "workers s ! i = WFetch t"
      "s' = setWorker i (WDecEmpty t) (s\<lparr>logged := logged s @ [LogDone t]\<rparr>)"
  | (fetchSome) t ps where "i < length (workers s)" "workers s ! i = WFetch t"
      "s' = setWorker i (WResults t ps) s"
  | (decErr) t where "i < length (workers s)" "workers s ! i = WDecErr t"
      "s' = setWorker i WRecv (s\<lparr>pending := pending s - 1\<rparr>)"
  | (decEmpty) t where "i < length (workers s)" "workers s ! i = WDecEmpty t"
      "s' = setWorker i WRecv (s\<lparr>pending := pending s - 1\<rparr>)"
  | (results) t ps where "i < length (workers s)" "workers s ! i = WResults t ps"
      "s' = setWorker i (WInc t) (s\<lparr>resultsCh := resultsCh s @ [ps]\<rparr>)"
  | (inc) t where "i < length (workers s)" "workers s ! i = WInc t"
      "s' = setWorker i (WSend t) (s\<lparr>pending := pending s + 1\<rparr>)"
  | (panic) t where "i < length (workers s)" "workers s ! i = WSend t" "tasksClosed s"
      "s' = setWorker i (WPanic t) s"
  | (send) t where "i < length (workers s)" "workers s ! i = WSend t" "\<not> tasksClosed s"
      "s' = setWorker i (WDec t) (s\<lparr>tasksCh := tasksCh s @ [nextTask t]\<rparr>)"
      "length (tasksCh s) < chanCap"
  | (dec) t where "i < length (workers s)" "workers s ! i = WDec t"
      "s' = setWorker i WRecv (s\<lparr>pending := pending s - 1\<rparr>)"
proof -
  from assms have i: "i < length (workers s)"
    by (auto simp: workerStep_def split: if_splits)
  show ?thesis
  proof (cases "workers s ! i")
    case WRecv
    with assms i recv exit show ?thesis
      by (auto simp: workerStep_def split: list.splits if_splits)
  next
    case (WFetch t)
    with assms i fetchErr fetchEmpty fetchSome show ?thesis
      by (auto simp: workerStep_def split: sum.splits if_splits)
  next
    case (WDecErr t)
    with assms i decErr show ?thesis by (auto simp: workerStep_def)
  next
    case (WDecEmpty t)
    with assms i decEmpty show ?thesis by (auto simp: workerStep_def)
  next
    case (WResults t ps)
    with assms i results show ?thesis by (auto simp: workerStep_def split: if_splits)
  next
    case (WInc t)
    with assms i inc show ?thesis by (auto simp: workerStep_def)
  next
    case (WSend t)
    with assms i panic send show ?thesis by (auto simp: workerStep_def split: if_splits)
  next
    case (WDec t)
    with assms i dec show ?thesis by (auto simp: workerStep_def)
  next
    case WExit
    with assms i show ?thesis by (simp add: workerStep_def)
  next
    case (WPanic t)
    with assms i show ?thesis by (simp add: workerStep_def)
  qed
qed

lemma mainStep_cases [consumes 1, case_names seedEnd seedInc seedSend collect]:
  assumes "mainStep pdq wr s = Some s'"
  obtains
    (seedEnd) "mainpc s = MSeedInc []" "s' = s\<lparr>mainpc := MCollect\<rparr>"
  | (seedInc) c rest where "mainpc s = MSeedInc (c # rest)"
      "s' = s\<lparr>pending := pending s + 1,
              mainpc := MSeedSend \<lparr>slug = snd c, categoryName = fst c, page_no = 1\<rparr> rest\<rparr>"
  | (seedSend) t rest where "mainpc s = MSeedSend t rest"
      "s' = s\<lparr>tasksCh := tasksCh s @ [t], mainpc := MSeedInc rest\<rparr>"
      "length (tasksCh s) < chanCap"
  | (collect) "mainpc s = MCollect" "seeded (mainpc s')" "pending s' = pending s"
      "tasksCh s' = tasksCh s" "workers s' = workers s" "logged s' = logged s"
      "tasksClosed s' = tasksClosed s" "mainWeight (mainpc s') = 0" "unseeded (mainpc s') = {}"
  using assms
  by (auto simp: mainStep_def Let_def seeded_def mainWeight_def unseeded_def
      split: mstate.splits list.splits if_splits)

lemma sum_weight_update:
  "i < length ws \<Longrightarrow>
   sum_list (map weight (ws[i := w])) = sum_list (map weight ws) - weight (ws ! i) + weight w"
proof (induction ws arbitrary: i)
  case Nil
  then show ?case by simp
next
  case (Cons x ws)
  then show ?case by (cases i) simp_all
qed

lemma weight_nonneg: "0 \<le> weight w"
  by (simp add: weight_def split: wstate.splits)

lemma sum_weight_nonneg: "0 \<le> sum_list (map weight ws)"
  by (induction ws) (simp_all add: weight_nonneg add_nonneg_nonneg)

lemma sum_weight_zero:
  "sum_list (map weight ws) = 0 \<Longrightarrow> w \<in> set ws \<Longrightarrow> weight w = 0"
proof (induction ws)
  case Nil
  then show ?case by simp
next
  case (Cons x ws)
  have "0 \<le> weight x" "0 \<le> sum_list (map weight ws)"
    by (simp_all add: weight_nonneg sum_weight_nonneg)
  with Cons.prems(1) have "weight x = 0" "sum_list (map weight ws) = 0" by simp_all
  with Cons show ?case by auto
qed


lemma weight_zero_idle: "weight w = 0 \<longleftrightarrow> idle w"
  by (simp add: weight_def idle_def split: wstate.splits)

subsection \<open>The counter counts the outstanding tasks\<close>

lemma workerStep_pendingInv:
  assumes "workerStep api i s = Some s'" "pendingInv s"
  shows "pendingInv s'"
  using assms
  by (cases rule: workerStep_cases)
     (simp_all add: pendingInv_def setWorker_def sum_weight_update weight_def)

lemma mainStep_pendingInv:
  assumes "mainStep pdq wr s = Some s'" "pendingInv s"
  shows "pendingInv s'"
  using assms
  by (cases rule: mainStep_cases) (simp_all add: pendingInv_def mainWeight_def)

lemma monitorStep_fields:
  assumes "monitorStep s = Some s'"
  shows "pending s' = pending s" "tasksCh s' = tasksCh s" "workers s' = workers s"
    "mainpc s' = mainpc s" "logged s' = logged s" "seeded (mainpc s)"
    "tasksClosed s' \<longrightarrow> tasksClosed s \<or> pending s \<le> 0" "\<not> tasksClosed s"
  using assms by (auto simp: monitorStep_def seeded_def split: mstate.splits if_splits)

lemma step_pendingInv:
  assumes "step api pdq wr a s = Some s'" "pendingInv s"
  shows "pendingInv s'"
proof (cases a)
  case AMain
  with assms show ?thesis by (auto simp: step_def split: if_splits dest: mainStep_pendingInv)
next
  case AMonitor
  with assms(1) have "monitorStep s = Some s'" by (simp add: step_def split: if_splits)
  from monitorStep_fields [OF this] assms(2) show ?thesis by (simp add: pendingInv_def)
next
  case (AWorker i)
  with assms show ?thesis by (auto simp: step_def split: if_splits dest: workerStep_pendingInv)
qed

lemma pendingInv_zero:
  assumes "pendingInv s" "pending s \<le> 0"
  shows "pending s = 0" "tasksCh s = []" "\<forall>w\<in>set (workers s). idle w" "mainWeight (mainpc s) = 0"
proof -
  have a: "0 \<le> sum_list (map weight (workers s))" by (rule sum_weight_nonneg)
  have b: "0 \<le> mainWeight (mainpc s)" by (simp add: mainWeight_def split: mstate.splits)
  from assms a b show "pending s = 0" "mainWeight (mainpc s) = 0"
    by (simp_all add: pendingInv_def)
  from assms a b have "int (length (tasksCh s)) \<le> 0" unfolding pendingInv_def by linarith
  then show "tasksCh s = []" by simp
  from assms a b have "sum_list (map weight (workers s)) = 0" by (simp add: pendingInv_def)
  then show "\<forall>w\<in>set (workers s). idle w"
    using sum_weight_zero weight_zero_idle by blast
qed

subsection \<open>The channel is closed only when nothing is outstanding\<close>

lemma list_ex_update:
  "\<not> list_ex P ws \<Longrightarrow> \<not> P w \<Longrightarrow> \<not> list_ex P (ws[i := w])"
  by (metis Bex_set insertE set_update_subset_insert subsetD)

lemma workerStep_closedInv:
  assumes st: "workerStep api i s = Some s'" and p: "pendingInv s" and c: "closedInv s"
  shows "closedInv s'"
proof (cases "tasksClosed s")
  case True
  with c have z: "pending s = 0" and sd: "seeded (mainpc s)"
    and np: "\<not> list_ex panicked (workers s)" by (simp_all add: closedInv_def)
  from pendingInv_zero [OF p] z have idl: "\<forall>w\<in>set (workers s). idle w" by simp
  from st show ?thesis
  proof (cases rule: workerStep_cases)
    case exit
    with True z sd np show ?thesis
      by (simp add: closedInv_def setWorker_def list_ex_update panicked_def)
  next
    case (recv t q)
    with pendingInv_zero(2) [OF p] z show ?thesis by simp
  qed (use idl in \<open>auto simp: idle_def dest!: nth_mem\<close>)
next
  case False
  with c have np: "\<not> list_ex panicked (workers s)" by (simp add: closedInv_def)
  from st False np show ?thesis
    by (cases rule: workerStep_cases)
       (simp_all add: closedInv_def setWorker_def list_ex_update panicked_def)
qed

lemma mainStep_closedInv:
  assumes "mainStep pdq wr s = Some s'" "closedInv s"
  shows "closedInv s'"
  using assms
  by (cases rule: mainStep_cases) (auto simp: closedInv_def seeded_def)

lemma monitorStep_closedInv:
  assumes st: "monitorStep s = Some s'" and p: "pendingInv s" and c: "closedInv s"
  shows "closedInv s'"
proof -
  note f = monitorStep_fields [OF st]
  have "pending s = 0" if "tasksClosed s'"
    using that f(7,8) pendingInv_zero(1) [OF p] by blast
  with f c show ?thesis by (auto simp: closedInv_def)
qed

lemma step_closedInv:
  assumes "step api pdq wr a s = Some s'" "pendingInv s" "closedInv s"
  shows "closedInv s'"
proof (cases a)
  case AMain
  with assms show ?thesis by (auto simp: step_def split: if_splits dest: mainStep_closedInv)
next
  case AMonitor
  with assms show ?thesis by (auto simp: step_def split: if_splits dest: monitorStep_closedInv)
next
  case (AWorker i)
  with assms show ?thesis by (auto simp: step_def split: if_splits dest: workerStep_closedInv)
qed

subsection \<open>No category is dropped\<close>

lemma covers_update:
  "i < length ws \<Longrightarrow> covers (ws ! i) \<subseteq> X \<union> covers w \<Longrightarrow>
   (\<Union>v\<in>set ws. covers v) \<subseteq> X \<union> (\<Union>v\<in>set (ws[i := w]). covers v)"
proof (induction ws arbitrary: i)
  case Nil
  then show ?case by simp
next
  case (Cons x ws)
  show ?case
  proof (cases i)
    case 0
    with Cons.prems show ?thesis by auto
  next
    case (Suc j)
    with Cons.prems have "j < length ws" "covers (ws ! j) \<subseteq> X \<union> covers w" by simp_all
    from Cons.IH [OF this] Suc show ?thesis by auto
  qed
qed

lemma workerStep_carried:
  assumes "workerStep api i s = Some s'"
  shows "carried s \<subseteq> carried s'"
  using assms
proof (cases rule: workerStep_cases)
  case (recv t q)
  have "(\<Union>v\<in>set (workers s). covers v)
          \<subseteq> {} \<union> (\<Union>v\<in>set ((workers s)[i := WFetch t]). covers v)"
    using recv(1,2) by (intro covers_update) (simp_all add: covers_def)
  moreover have "WFetch t \<in> set ((workers s)[i := WFetch t])"
    using recv(1) by (simp add: set_update_memI)
  then have "categoryName t \<in> (\<Union>v\<in>set ((workers s)[i := WFetch t]). covers v)"
    by (auto simp: covers_def intro!: bexI [of _ "WFetch t"])
  ultimately show ?thesis using recv(3,4) by (auto simp: carried_def setWorker_def)
next
  case exit
  have "(\<Union>v\<in>set (workers s). covers v)
          \<subseteq> {} \<union> (\<Union>v\<in>set ((workers s)[i := WExit]). covers v)"
    using exit(1,2) by (intro covers_update) (simp_all add: covers_def)
  then show ?thesis using exit by (auto simp: carried_def setWorker_def)
next
  case (fetchErr t)
  have "(\<Union>v\<in>set (workers s). covers v)
          \<subseteq> {categoryName t} \<union> (\<Union>v\<in>set ((workers s)[i := WDecErr t]). covers v)"
    using fetchErr(1,2) by (intro covers_update) (simp_all add: covers_def)
  then show ?thesis using fetchErr by (auto simp: carried_def setWorker_def ended_def)
next
  case (fetchEmpty t)
  have "(\<Union>v\<in>set (workers s). covers v)
          \<subseteq> {categoryName t} \<union> (\<Union>v\<in>set ((workers s)[i := WDecEmpty t]). covers v)"
    using fetchEmpty(1,2) by (intro covers_update) (simp_all add: covers_def)
  then show ?thesis using fetchEmpty by (auto simp: carried_def setWorker_def ended_def)
next
  case (fetchSome t ps)
  have "(\<Union>v\<in>set (workers s). covers v)
          \<subseteq> {} \<union> (\<Union>v\<in>set ((workers s)[i := WResults t ps]). covers v)"
    using fetchSome(1,2) by (intro covers_update) (simp_all add: covers_def)
  then show ?thesis using fetchSome by (auto simp: carried_def setWorker_def)
next
  case (decErr t)
  have "(\<Union>v\<in>set (workers s). covers v)
          \<subseteq> {} \<union> (\<Union>v\<in>set ((workers s)[i := WRecv]). covers v)"
    using decErr(1,2) by (intro covers_update) (simp_all add: covers_def)
  then show ?thesis using decErr by (auto simp: carried_def setWorker_def)
next
  case (decEmpty t)
  have "(\<Union>v\<in>set (workers s). covers v)
          \<subseteq> {} \<union> (\<Union>v\<in>set ((workers s)[i := WRecv]). covers v)"
    using decEmpty(1,2) by (intro covers_update) (simp_all add: covers_def)
  then show ?thesis using decEmpty by (auto simp: carried_def setWorker_def)
next
  case (results t ps)
  have "(\<Union>v\<in>set (workers s). covers v)
          \<subseteq> {} \<union> (\<Union>v\<in>set ((workers s)[i := WInc t]). covers v)"
    using results(1,2) by (intro covers_update) (simp_all add: covers_def)
  then show ?thesis using results by (auto simp: carried_def setWorker_def)
next
  case (inc t)
  have "(\<Union>v\<in>set (workers s). covers v)
          \<subseteq> {} \<union> (\<Union>v\<in>set ((workers s)[i := WSend t]). covers v)"
    using inc(1,2) by (intro covers_update) (simp_all add: covers_def)
  then show ?thesis using inc by (auto simp: carried_def setWorker_def)
next
  case (panic t)
  have "(\<Union>v\<in>set (workers s). covers v)
          \<subseteq> {} \<union> (\<Union>v\<in>set ((workers s)[i := WPanic t]). covers v)"
    using panic(1,2) by (intro covers_update) (simp_all add: covers_def)
  then show ?thesis using panic by (auto simp: carried_def setWorker_def)
next
  case (send t)
  have "(\<Union>v\<in>set (workers s). covers v)
          \<subseteq> {categoryName t} \<union> (\<Union>v\<in>set ((workers s)[i := WDec t]). covers v)"
    using send(1,2) by (intro covers_update) (simp_all add: covers_def)
  then show ?thesis using send by (auto simp: carried_def setWorker_def nextTask_def)
next
  case (dec t)
  have "(\<Union>v\<in>set (workers s). covers v)
          \<subseteq> {} \<union> (\<Union>v\<in>set ((workers s)[i := WRecv]). covers v)"
    using dec(1,2) by (intro covers_update) (simp_all add: covers_def)
  then show ?thesis using dec by (auto simp: carried_def setWorker_def)
qed

lemma mainStep_carried:
  assumes "mainStep pdq wr s = Some s'"
  shows "carried s \<subseteq> carried s'"
  using assms
  by (cases rule: mainStep_cases) (auto simp: carried_def unseeded_def)

lemma step_carried:
  assumes "step api pdq wr a s = Some s'"
  shows "carried s \<subseteq> carried s'"
proof (cases a)
  case AMain
  with assms show ?thesis by (auto simp: step_def split: if_splits dest: mainStep_carried)
next
  case AMonitor
  with assms have "monitorStep s = Some s'" by (simp add: step_def split: if_splits)
  from monitorStep_fields [OF this] show ?thesis by (simp add: carried_def)
next
  case (AWorker i)
  with assms have "workerStep api i s = Some s'" by (simp add: step_def split: if_splits)
  then show ?thesis by (rule workerStep_carried)
qed

lemma exec_invs:
  "pendingInv s \<Longrightarrow> closedInv s \<Longrightarrow> exec api pdq wr s acts = Some s' \<Longrightarrow>
   pendingInv s' \<and> closedInv s' \<and> carried s \<subseteq> carried s'"
proof (induction acts arbitrary: s)
  case Nil
  then show ?case by simp
next
  case (Cons a acts)
  from Cons.prems(3) obtain s1 where s1: "step api pdq wr a s = Some s1"
    and e: "exec api pdq wr s1 acts = Some s'"
    by (auto split: option.splits)
  have p1: "pendingInv s1" using s1 Cons.prems(1) by (rule step_pendingInv)
  have c1: "closedInv s1" using s1 Cons.prems(1,2) by (rule step_closedInv)
  have "carried s \<subseteq> carried s1" using s1 by (rule step_carried)
  with Cons.IH [OF p1 c1 e] show ?case by auto
qed

lemma replicate_WRecv:
  "sum_list (map weight (replicate k WRecv)) = 0"
  "\<not> list_ex panicked (replicate k WRecv)"
  by (induction k) (simp_all add: weight_def panicked_def)

lemma reachable_invs:
  assumes "reachable api pdq wr rangeOrder cats n s"
  shows "pendingInv s" "closedInv s" "fst ` set (rangeOrder cats) \<subseteq> carried s"
proof -
  from assms obtain s0 acts where i: "runInit rangeOrder wr cats n = Inr s0"
    and e: "exec api pdq wr s0 acts = Some s"
    by (auto simp: reachable_def)
  note s0 = runInit_Inr [OF i]
  have p0: "pendingInv s0"
    using replicate_WRecv(1) [of "nat n"] by (simp add: s0 pendingInv_def mainWeight_def)
  have c0: "closedInv s0"
    using replicate_WRecv(2) [of "nat n"] by (simp add: s0 closedInv_def)
  have "fst ` set (rangeOrder cats) \<subseteq> carried s0"
    by (simp add: s0 carried_def unseeded_def)
  with exec_invs [OF p0 c0 e] show "pendingInv s" "closedInv s"
    "fst ` set (rangeOrder cats) \<subseteq> carried s"
    by auto
qed














subsection \<open>The counter stays small\<close>

lemma workerStep_capInv:
  assumes "workerStep api i s = Some s'" "capInv k s"
  shows "capInv k s'"
  using assms
  by (cases rule: workerStep_cases) (auto simp: capInv_def setWorker_def)

lemma mainStep_capInv:
  assumes "mainStep pdq wr s = Some s'" "capInv k s"
  shows "capInv k s'"
  using assms
  by (cases rule: mainStep_cases) (auto simp: capInv_def)

lemma step_capInv:
  assumes "step api pdq wr a s = Some s'" "capInv k s"
  shows "capInv k s'"
proof (cases a)
  case AMain
  with assms show ?thesis by (auto simp: step_def split: if_splits dest: mainStep_capInv)
next
  case AMonitor
  with assms(1) have "monitorStep s = Some s'" by (simp add: step_def split: if_splits)
  from monitorStep_fields [OF this] assms(2) show ?thesis by (simp add: capInv_def)
next
  case (AWorker i)
  with assms show ?thesis by (auto simp: step_def split: if_splits dest: workerStep_capInv)
qed

lemma exec_capInv:
  "capInv k s \<Longrightarrow> exec api pdq wr s acts = Some s' \<Longrightarrow> capInv k s'"
proof (induction acts arbitrary: s)
  case Nil
  then show ?case by simp
next
  case (Cons a acts)
  then show ?case by (auto split: option.splits dest: step_capInv)
qed

lemma weight_le_2: "weight w \<le> 2"
  by (simp add: weight_def split: wstate.splits)

lemma sum_weight_le: "sum_list (map weight ws) \<le> 2 * int (length ws)"
proof (induction ws)
  case Nil
  then show ?case by simp
next
  case (Cons w ws)
  with weight_le_2 [of w] show ?case by simp
qed

lemma pending_bound:
  assumes "reachable api pdq wr rangeOrder cats n s"
  shows "0 \<le> pending s" and "pending s \<le> int chanCap + 2 * int (nat n) + 1"
proof -
  from assms obtain s0 acts where i: "runInit rangeOrder wr cats n = Inr s0"
    and e: "exec api pdq wr s0 acts = Some s"
    by (auto simp: reachable_def)
  have "capInv (nat n) s0" using runInit_Inr [OF i] by (simp add: capInv_def)
  then have c: "capInv (nat n) s" using e by (rule exec_capInv)
  have p: "pendingInv s" using assms by (rule reachable_invs)
  have m: "0 \<le> mainWeight (mainpc s)" "mainWeight (mainpc s) \<le> 1"
    by (simp_all add: mainWeight_def split: mstate.splits)
  show "0 \<le> pending s"
    using p m sum_weight_nonneg [of "workers s"] unfolding pendingInv_def by linarith
  show "pending s \<le> int chanCap + 2 * int (nat n) + 1"
    using p m c sum_weight_le [of "workers s"] unfolding pendingInv_def capInv_def by linarith
qed

end
